theory Spec2Isabelle
  imports Complex_Main
begin

section \<open>Numbers, vectors and errors\<close>

text \<open>
  The voxel engine of \<^verbatim>\<open>src/dicer/voxel.js\<close> computes with JavaScript numbers.
  A finite number is modelled as a \<^typ>\<open>real\<close>; the one place where the code can
  produce NaN from finite inputs (the quotient \<^verbatim>\<open>0 / 0\<close> in the ELH distance
  function) is modelled by \<^typ>\<open>real option\<close>, with \<^term>\<open>None\<close> for NaN.
  Every comparison with NaN is false, which \<open>js_le\<close> writes out.
  Cell counts and indices are natural numbers.
\<close>

datatype Vector3 = Vector3 (vec_x: real) (vec_y: real) (vec_z: real)

datatype error =
    CylinderDirectionNotNormalized
  | ElhDirectionNotNormalized
  | InvalidExtrusionNormal
  | InvalidPQPair
  | HalfVectorsNotPerpendicular
  | UnknownRoundMode string
  | GridSizeMismatch
  | GridOffsetMismatch
  | GridResolutionMismatch
  | MapFnNotRegistered string
  | Map2FnNotRegistered string
  | ReduceFnNotRegistered string
  | AlreadyRegistered string
  | ReferenceError string
  | TypeError string
  | BufferSizeMismatch

text \<open>The methods of three.js's \<^verbatim>\<open>Vector3\<close> that the code calls.\<close>

definition sub :: "Vector3 \<Rightarrow> Vector3 \<Rightarrow> Vector3" where
  "sub a b = Vector3 (vec_x a - vec_x b) (vec_y a - vec_y b) (vec_z a - vec_z b)"

definition add :: "Vector3 \<Rightarrow> Vector3 \<Rightarrow> Vector3" where
  "add a b = Vector3 (vec_x a + vec_x b) (vec_y a + vec_y b) (vec_z a + vec_z b)"

definition addScalar :: "Vector3 \<Rightarrow> real \<Rightarrow> Vector3" where
  "addScalar a s = Vector3 (vec_x a + s) (vec_y a + s) (vec_z a + s)"

definition multiplyScalar :: "Vector3 \<Rightarrow> real \<Rightarrow> Vector3" where
  "multiplyScalar a s = Vector3 (vec_x a * s) (vec_y a * s) (vec_z a * s)"

definition dot :: "Vector3 \<Rightarrow> Vector3 \<Rightarrow> real" where
  "dot a b = vec_x a * vec_x b + vec_y a * vec_y b + vec_z a * vec_z b"

definition lengthSq :: "Vector3 \<Rightarrow> real" where
  "lengthSq a = vec_x a * vec_x a + vec_y a * vec_y a + vec_z a * vec_z a"

definition vlength :: "Vector3 \<Rightarrow> real" where
  "vlength a = sqrt (vec_x a * vec_x a + vec_y a * vec_y a + vec_z a * vec_z a)"

definition distanceTo :: "Vector3 \<Rightarrow> Vector3 \<Rightarrow> real" where
  "distanceTo a b = sqrt ((vec_x a - vec_x b) * (vec_x a - vec_x b)
                        + (vec_y a - vec_y b) * (vec_y a - vec_y b)
                        + (vec_z a - vec_z b) * (vec_z a - vec_z b))"

text \<open>\<^verbatim>\<open>projectOnVector\<close> returns the zero vector when the target has length zero.\<close>

definition projectOnVector :: "Vector3 \<Rightarrow> Vector3 \<Rightarrow> Vector3" where
  "projectOnVector a v =
     (let denominator = lengthSq v in
      if denominator = 0 then Vector3 0 0 0
      else multiplyScalar v (dot v a / denominator))"

definition projectOnPlane :: "Vector3 \<Rightarrow> Vector3 \<Rightarrow> Vector3" where
  "projectOnPlane a planeNormal = sub a (projectOnVector a planeNormal)"

text \<open>\<^verbatim>\<open>normalize\<close> divides by \<^verbatim>\<open>this.length() || 1\<close>: a zero vector is divided by 1.\<close>

definition normalize :: "Vector3 \<Rightarrow> Vector3" where
  "normalize a =
     (let l = vlength a; d = (if l = 0 then 1 else l) in
      multiplyScalar a (1 / d))"

definition hypot :: "real \<Rightarrow> real \<Rightarrow> real" where
  "hypot a b = sqrt (a * a + b * b)"

definition js_le :: "real option \<Rightarrow> real \<Rightarrow> bool" where
  "js_le v b = (case v of None \<Rightarrow> False | Some a \<Rightarrow> a \<le> b)"

section \<open>Shapes and their signed distance functions\<close>

datatype Shape =
    Cylinder Vector3 Vector3 real real
  | ELH Vector3 Vector3 Vector3 real real
  | Box Vector3 Vector3 Vector3 Vector3

definition createCylinderShape :: "Vector3 \<Rightarrow> Vector3 \<Rightarrow> real \<Rightarrow> real \<Rightarrow> Shape" where
  "createCylinderShape p n r h = Cylinder p n r h"

definition createELHShape :: "Vector3 \<Rightarrow> Vector3 \<Rightarrow> Vector3 \<Rightarrow> real \<Rightarrow> real \<Rightarrow> Shape" where
  "createELHShape p q n r h = ELH p q n r h"

definition createBoxShape :: "Vector3 \<Rightarrow> Vector3 \<Rightarrow> Vector3 \<Rightarrow> Vector3 \<Rightarrow> Shape" where
  "createBoxShape center halfVec0 halfVec1 halfVec2 = Box center halfVec0 halfVec1 halfVec2"

text \<open>The closure returned by \<^verbatim>\<open>createSdfCylinder\<close>.\<close>

definition sdfCylinder :: "Vector3 \<Rightarrow> Vector3 \<Rightarrow> real \<Rightarrow> real \<Rightarrow> Vector3 \<Rightarrow> real" where
  "sdfCylinder p n r h x =
     (let dx = sub x p;
          dx1 = dot dx n;
          dx2 = projectOnPlane dx n;
          d1 = abs (dx1 - h * 0.5) - h * 0.5;
          d2 = vlength dx2 - r
      in min (max d1 d2) 0 + hypot (max d1 0) (max d2 0))"

definition createSdfCylinder ::
  "Vector3 \<Rightarrow> Vector3 \<Rightarrow> real \<Rightarrow> real \<Rightarrow> error + (Vector3 \<Rightarrow> real option)" where
  "createSdfCylinder p n r h =
     (if vlength n \<noteq> 1 then Inl CylinderDirectionNotNormalized
      else Inr (\<lambda>x. Some (sdfCylinder p n r h x)))"

definition clamp01 :: "real \<Rightarrow> real" where
  "clamp01 x = max 0 (min 1 x)"

text \<open>
  The closure returned by \<^verbatim>\<open>createSdfElh\<close>. When \<^verbatim>\<open>dqLenSq\<close> is zero, \<^verbatim>\<open>dq\<close> is
  the zero vector, the quotient is \<^verbatim>\<open>0 / 0\<close>, and NaN goes through \<^verbatim>\<open>clamp01\<close>,
  \<^verbatim>\<open>multiplyScalar\<close>, \<^verbatim>\<open>distanceTo\<close>, \<^verbatim>\<open>Math.max\<close>, \<^verbatim>\<open>Math.min\<close> and
  \<^verbatim>\<open>Math.hypot\<close> to the result.
\<close>

definition sdfElh ::
  "Vector3 \<Rightarrow> Vector3 \<Rightarrow> Vector3 \<Rightarrow> real \<Rightarrow> real \<Rightarrow> Vector3 \<Rightarrow> real option" where
  "sdfElh p q n r h x =
     (let dq = sub q p;
          dqLenSq = dot dq dq;
          dx = sub x p;
          dx1 = dot n dx;
          dx2 = projectOnPlane dx n;
          d1 = abs (dx1 - h * 0.5) - h * 0.5
      in if dqLenSq = 0 then None
         else
           (let t = clamp01 (dot dx2 dq / dqLenSq);
                d2 = distanceTo dx2 (multiplyScalar dq t) - r
            in Some (min (max d1 d2) 0 + hypot (max d1 0) (max d2 0))))"

definition createSdfElh ::
  "Vector3 \<Rightarrow> Vector3 \<Rightarrow> Vector3 \<Rightarrow> real \<Rightarrow> real \<Rightarrow> error + (Vector3 \<Rightarrow> real option)" where
  "createSdfElh p q n r h =
     (if vlength n \<noteq> 1 then Inl ElhDirectionNotNormalized
      else if dot (sub q p) n \<noteq> 0 then Inl InvalidExtrusionNormal
      else if distanceTo q p < 0 then Inl InvalidPQPair
      else Inr (sdfElh p q n r h))"

text \<open>The closure returned by \<^verbatim>\<open>createSdfBox\<close>.\<close>

definition sdfBox :: "Vector3 \<Rightarrow> Vector3 \<Rightarrow> Vector3 \<Rightarrow> Vector3 \<Rightarrow> Vector3 \<Rightarrow> real" where
  "sdfBox center halfVec0 halfVec1 halfVec2 p =
     (let unitVec0 = normalize halfVec0;
          unitVec1 = normalize halfVec1;
          unitVec2 = normalize halfVec2;
          halfSize = Vector3 (vlength halfVec0) (vlength halfVec1) (vlength halfVec2);
          dp0 = sub p center;
          dp1 = Vector3 (abs (dot dp0 unitVec0)) (abs (dot dp0 unitVec1)) (abs (dot dp0 unitVec2));
          dp = sub dp1 halfSize;
          dInside = min 0 (max (max (vec_x dp) (vec_y dp)) (vec_z dp));
          dOutside = vlength (Vector3 (max 0 (vec_x dp)) (max 0 (vec_y dp)) (max 0 (vec_z dp)))
      in dInside + dOutside)"

definition createSdfBox ::
  "Vector3 \<Rightarrow> Vector3 \<Rightarrow> Vector3 \<Rightarrow> Vector3 \<Rightarrow> error + (Vector3 \<Rightarrow> real option)" where
  "createSdfBox center halfVec0 halfVec1 halfVec2 =
     (if dot halfVec0 halfVec1 \<noteq> 0 \<or> dot halfVec0 halfVec2 \<noteq> 0 \<or> dot halfVec1 halfVec2 \<noteq> 0
      then Inl HalfVectorsNotPerpendicular
      else Inr (\<lambda>p. Some (sdfBox center halfVec0 halfVec1 halfVec2 p)))"

text \<open>
  \<^verbatim>\<open>createSdf\<close> dispatches on the shape's tag. The shapes are a closed datatype here,
  so the \<^verbatim>\<open>default\<close> branch (unknown tag) has no counterpart.
\<close>

fun createSdf :: "Shape \<Rightarrow> error + (Vector3 \<Rightarrow> real option)" where
  "createSdf (Cylinder p n r h) = createSdfCylinder p n r h"
| "createSdf (ELH p q n r h) = createSdfElh p q n r h"
| "createSdf (Box center halfVec0 halfVec1 halfVec2) = createSdfBox center halfVec0 halfVec1 halfVec2"

section \<open>The host voxel grid\<close>

record grid_meta =
  res :: real
  numX :: nat
  numY :: nat
  numZ :: nat
  ofs :: Vector3

record 'v VoxelGridCpu = grid_meta +
  data :: "'v list"

text \<open>
  The constructor zero-fills a typed array of \<open>numX * numY * numZ\<close> elements; \<open>zero\<close> is
  the zero of the cell type. A store into a typed array converts the number to the
  element type; the values stored here are taken to be of the cell type \<open>'v\<close> already.
\<close>

definition newVoxelGridCpu ::
  "real \<Rightarrow> nat \<Rightarrow> nat \<Rightarrow> nat \<Rightarrow> Vector3 \<Rightarrow> 'v \<Rightarrow> 'v VoxelGridCpu" where
  "newVoxelGridCpu r nx ny nz off zero =
     \<lparr>res = r, numX = nx, numY = ny, numZ = nz, ofs = off, data = replicate (nx * ny * nz) zero\<rparr>"

definition centerOf :: "('a grid_meta_scheme) \<Rightarrow> nat \<Rightarrow> nat \<Rightarrow> nat \<Rightarrow> Vector3" where
  "centerOf vg ix iy iz =
     add (multiplyScalar (addScalar (Vector3 (real ix) (real iy) (real iz)) 0.5) (res vg)) (ofs vg)"

text \<open>
  A typed array ignores a store outside its range, as \<^term>\<open>list_update\<close> does, and a
  load outside its range gives \<^verbatim>\<open>undefined\<close>, here \<^term>\<open>None\<close>.
\<close>

definition set_cell :: "'v VoxelGridCpu \<Rightarrow> nat \<Rightarrow> nat \<Rightarrow> nat \<Rightarrow> 'v \<Rightarrow> 'v VoxelGridCpu" where
  "set_cell vg ix iy iz val =
     vg\<lparr>data := (data vg)[ix + iy * numX vg + iz * numX vg * numY vg := val]\<rparr>"

definition get :: "'v VoxelGridCpu \<Rightarrow> nat \<Rightarrow> nat \<Rightarrow> nat \<Rightarrow> 'v option" where
  "get vg ix iy iz =
     (let i = ix + iy * numX vg + iz * numX vg * numY vg in
      if i < length (data vg) then Some (data vg ! i) else None)"

section \<open>Traversal and rasterization\<close>

definition blockSize :: nat where
  "blockSize = 8"

text \<open>The first loop nest of \<^verbatim>\<open>traverseAllPointsInside\<close>: the blocks that survive culling.\<close>

definition blockCenter :: "('a grid_meta_scheme) \<Rightarrow> nat \<Rightarrow> nat \<Rightarrow> nat \<Rightarrow> Vector3" where
  "blockCenter vg bx by bz =
     add (multiplyScalar (addScalar (Vector3 (real bx) (real by) (real bz)) 0.5)
            (real blockSize * res vg)) (ofs vg)"

definition blockOffset :: "('a grid_meta_scheme) \<Rightarrow> real" where
  "blockOffset vg = res vg * real blockSize * 0.5 * sqrt 3"

definition blocks ::
  "('a grid_meta_scheme) \<Rightarrow> (Vector3 \<Rightarrow> real option) \<Rightarrow> real \<Rightarrow> (nat \<times> nat \<times> nat) list" where
  "blocks vg sdf offset =
     (let nbx = numX vg div blockSize + 1;
          nby = numY vg div blockSize + 1;
          nbz = numZ vg div blockSize + 1
      in [(bx, by, bz).
            bz \<leftarrow> [0..<nbz], by \<leftarrow> [0..<nby], bx \<leftarrow> [0..<nbx],
            js_le (sdf (blockCenter vg bx by bz)) (blockOffset vg + offset)])"

text \<open>
  The second loop nest, for one block: the cells of the block, in the order of the loops
  (\<open>dz\<close>, then \<open>dy\<close>, then \<open>dx\<close>), that pass the three \<^verbatim>\<open>continue\<close> guards and the
  distance test. The distance function and \<^verbatim>\<open>centerOf\<close> are pure, so the cells handed to
  the visitor can be listed before the visitor runs.
\<close>

definition blockCells ::
  "('a grid_meta_scheme) \<Rightarrow> (Vector3 \<Rightarrow> real option) \<Rightarrow> real \<Rightarrow> nat \<times> nat \<times> nat
     \<Rightarrow> (nat \<times> nat \<times> nat) list" where
  "blockCells vg sdf offset b =
     (case b of (bx, by, bz) \<Rightarrow>
        [(ix, iy, iz).
           dz \<leftarrow> [0..<blockSize], iz \<leftarrow> [bz * blockSize + dz], iz < numZ vg,
           dy \<leftarrow> [0..<blockSize], iy \<leftarrow> [by * blockSize + dy], iy < numY vg,
           dx \<leftarrow> [0..<blockSize], ix \<leftarrow> [bx * blockSize + dx], ix < numX vg,
           js_le (sdf (centerOf vg ix iy iz)) offset])"

definition insideCells ::
  "('a grid_meta_scheme) \<Rightarrow> (Vector3 \<Rightarrow> real option) \<Rightarrow> real \<Rightarrow> (nat \<times> nat \<times> nat) list" where
  "insideCells vg sdf offset = concat (map (blockCells vg sdf offset) (blocks vg sdf offset))"

text \<open>
  The visitor \<open>fn\<close> is called on the cells in order and threads the state it mutates;
  a true result stops the traversal, which then returns true.
\<close>

fun visit ::
  "(nat \<Rightarrow> nat \<Rightarrow> nat \<Rightarrow> 's \<Rightarrow> bool \<times> 's) \<Rightarrow> (nat \<times> nat \<times> nat) list \<Rightarrow> 's \<Rightarrow> bool \<times> 's" where
  "visit fn [] s = (False, s)"
| "visit fn ((ix, iy, iz) # cs) s =
     (case fn ix iy iz s of
        (True, s') \<Rightarrow> (True, s')
      | (False, s') \<Rightarrow> visit fn cs s')"

definition traverseAllPointsInside ::
  "('a grid_meta_scheme) \<Rightarrow> (Vector3 \<Rightarrow> real option) \<Rightarrow> real
     \<Rightarrow> (nat \<Rightarrow> nat \<Rightarrow> nat \<Rightarrow> 's \<Rightarrow> bool \<times> 's) \<Rightarrow> 's \<Rightarrow> bool \<times> 's" where
  "traverseAllPointsInside vg sdf offset fn s = visit fn (insideCells vg sdf offset) s"

text \<open>
  \<^verbatim>\<open>fillShape\<close>: the distance function is built first (and may throw), then the round
  mode is decoded. The visitor stores \<open>val\<close> and returns \<^verbatim>\<open>undefined\<close>, which is falsy.
\<close>

definition fillShape ::
  "'v VoxelGridCpu \<Rightarrow> Shape \<Rightarrow> 'v \<Rightarrow> string \<Rightarrow> error + 'v VoxelGridCpu" where
  "fillShape this shape val roundMode =
     (case createSdf shape of
        Inl e \<Rightarrow> Inl e
      | Inr sdf \<Rightarrow>
          (let halfDiag = res this * 0.5 * sqrt 3 in
           case (if roundMode = ''outside'' then Some halfDiag
                 else if roundMode = ''inside'' then Some (- halfDiag)
                 else if roundMode = ''nearest'' then Some 0
                 else None) of
             None \<Rightarrow> Inl (UnknownRoundMode roundMode)
           | Some offset \<Rightarrow>
               Inr (snd (traverseAllPointsInside this sdf offset
                           (\<lambda>ix iy iz g. (False, set_cell g ix iy iz val)) this))))"

text \<open>
  To speak of the calls a traversal makes, a visitor is wrapped so that it also records
  the indices it is called with.
\<close>

definition logging ::
  "(nat \<Rightarrow> nat \<Rightarrow> nat \<Rightarrow> 's \<Rightarrow> bool \<times> 's)
     \<Rightarrow> nat \<Rightarrow> nat \<Rightarrow> nat \<Rightarrow> 's \<times> (nat \<times> nat \<times> nat) list \<Rightarrow> bool \<times> 's \<times> (nat \<times> nat \<times> nat) list" where
  "logging fn ix iy iz sl =
     (case fn ix iy iz (fst sl) of (b, s') \<Rightarrow> (b, (s', snd sl @ [(ix, iy, iz)])))"

definition calls ::
  "('a grid_meta_scheme) \<Rightarrow> (Vector3 \<Rightarrow> real option) \<Rightarrow> real
     \<Rightarrow> (nat \<Rightarrow> nat \<Rightarrow> nat \<Rightarrow> 's \<Rightarrow> bool \<times> 's) \<Rightarrow> 's \<Rightarrow> (nat \<times> nat \<times> nat) list" where
  "calls vg sdf offset fn s = snd (snd (traverseAllPointsInside vg sdf offset (logging fn) (s, [])))"

text \<open>
  The same rasterization with the visitor's calls recorded: the cells \<^verbatim>\<open>fillShape\<close>
  stores into, in order. \<open>cellsSet\<close> is the set of these cells (empty when the call throws).
\<close>

definition fillShapeCalls ::
  "'v VoxelGridCpu \<Rightarrow> Shape \<Rightarrow> 'v \<Rightarrow> string \<Rightarrow> error + (nat \<times> nat \<times> nat) list" where
  "fillShapeCalls this shape val roundMode =
     (case createSdf shape of
        Inl e \<Rightarrow> Inl e
      | Inr sdf \<Rightarrow>
          (let halfDiag = res this * 0.5 * sqrt 3 in
           case (if roundMode = ''outside'' then Some halfDiag
                 else if roundMode = ''inside'' then Some (- halfDiag)
                 else if roundMode = ''nearest'' then Some 0
                 else None) of
             None \<Rightarrow> Inl (UnknownRoundMode roundMode)
           | Some offset \<Rightarrow>
               Inr (calls this sdf offset (\<lambda>ix iy iz g. (False, set_cell g ix iy iz val)) this)))"

definition cellsSet :: "'v VoxelGridCpu \<Rightarrow> Shape \<Rightarrow> 'v \<Rightarrow> string \<Rightarrow> (nat \<times> nat \<times> nat) set" where
  "cellsSet this shape val roundMode =
     (case fillShapeCalls this shape val roundMode of Inl e \<Rightarrow> {} | Inr cs \<Rightarrow> set cs)"

section \<open>Device grids\<close>

text \<open>
  A device buffer is a list of typed cells; \<^verbatim>\<open>u32\<close> values are natural numbers and
  \<^verbatim>\<open>f32\<close> values are reals. The device memory maps the handle of every live buffer to
  its contents. A \<^verbatim>\<open>VoxelGridGpu\<close> holds the handle of the buffer its constructor
  allocated, or nothing after \<^verbatim>\<open>destroy\<close>; since only the constructor makes such
  objects, two of them are the same object exactly when they hold the same buffer, which
  is how \<^verbatim>\<open>===\<close> on grids is read (\<open>sameObject\<close>).
\<close>

datatype celltype = U32 | F32 | Vec3F | Vec4F

datatype cell = CU32 nat | CF32 real | CVec3 Vector3 | CVec4 Vector3 real

fun sizeOfType :: "celltype \<Rightarrow> nat" where
  "sizeOfType U32 = 4"
| "sizeOfType F32 = 4"
| "sizeOfType Vec3F = 16"
| "sizeOfType Vec4F = 16"

fun zeroOf :: "celltype \<Rightarrow> cell" where
  "zeroOf U32 = CU32 0"
| "zeroOf F32 = CF32 0"
| "zeroOf Vec3F = CVec3 (Vector3 0 0 0)"
| "zeroOf Vec4F = CVec4 (Vector3 0 0 0) 0"

fun sizeOfCell :: "cell \<Rightarrow> nat" where
  "sizeOfCell (CU32 n) = 4"
| "sizeOfCell (CF32 r) = 4"
| "sizeOfCell (CVec3 v) = 16"
| "sizeOfCell (CVec4 v w) = 16"

fun u32_of :: "cell \<Rightarrow> nat" where
  "u32_of (CU32 n) = n"
| "u32_of c = 0"

fun f32_of :: "cell \<Rightarrow> real" where
  "f32_of (CF32 r) = r"
| "f32_of c = 0"

fun xyz_of :: "cell \<Rightarrow> Vector3" where
  "xyz_of (CVec4 v w) = v"
| "xyz_of (CVec3 v) = v"
| "xyz_of c = Vector3 0 0 0"

fun w_of :: "cell \<Rightarrow> real" where
  "w_of (CVec4 v w) = w"
| "w_of c = 0"

record VoxelGridGpu = grid_meta +
  type :: celltype
  buffer :: "nat option"

type_synonym memory = "nat \<rightharpoonup> cell list"

type_synonym vec4u = "nat \<times> nat \<times> nat \<times> nat"

type_synonym vec4f = "Vector3 \<times> real"

text \<open>
  A compiled pipeline is the function one invocation computes: from the handles bound at
  bindings 0, 1, 2, the two uniforms \<^verbatim>\<open>nums\<close> and \<^verbatim>\<open>ofs_res\<close> and the global
  invocation id to a change of the device memory.
\<close>

type_synonym pipeline = "nat list \<Rightarrow> vec4u \<Rightarrow> vec4f \<Rightarrow> nat \<Rightarrow> memory \<Rightarrow> memory"

record GpuKernels =
  buffers :: memory
  nextBuffer :: nat
  mapPipelines :: "string \<rightharpoonup> pipeline"
  map2Pipelines :: "string \<rightharpoonup> pipeline"
  reducePipelines :: "string \<rightharpoonup> cell \<times> (cell \<Rightarrow> cell \<Rightarrow> cell)"

definition wgSize :: nat where
  "wgSize = 128"

definition invalidValue :: real where
  "invalidValue = 65536"

definition sameObject :: "VoxelGridGpu \<Rightarrow> VoxelGridGpu \<Rightarrow> bool" where
  "sameObject a b = (buffer a = buffer b)"

subsection \<open>The grid snippet shared by the kernels\<close>

definition decompose_ix :: "vec4u \<Rightarrow> nat \<Rightarrow> nat \<times> nat \<times> nat" where
  "decompose_ix nums ix =
     (case nums of (nx, ny, nz, nw) \<Rightarrow> (ix mod nx, (ix div nx) mod ny, ix div (nx * ny)))"

definition compose_ix :: "vec4u \<Rightarrow> nat \<times> nat \<times> nat \<Rightarrow> nat" where
  "compose_ix nums ix3 =
     (case nums of (nx, ny, nz, nw) \<Rightarrow>
        (case ix3 of (ix, iy, iz) \<Rightarrow> ix + iy * nx + iz * nx * ny))"

definition cell_center :: "vec4f \<Rightarrow> nat \<times> nat \<times> nat \<Rightarrow> Vector3" where
  "cell_center ofs_res ix3 =
     (case ix3 of (ix, iy, iz) \<Rightarrow>
        add (multiplyScalar (Vector3 (real ix) (real iy) (real iz)) (snd ofs_res)) (fst ofs_res))"

subsection \<open>Buffers\<close>

definition allocBuffer :: "GpuKernels \<Rightarrow> cell list \<Rightarrow> nat \<times> GpuKernels" where
  "allocBuffer K contents =
     (nextBuffer K,
      K\<lparr>buffers := (buffers K)(nextBuffer K \<mapsto> contents), nextBuffer := Suc (nextBuffer K)\<rparr>)"

definition destroyBuffer :: "GpuKernels \<Rightarrow> nat \<Rightarrow> GpuKernels" where
  "destroyBuffer K b = K\<lparr>buffers := (buffers K)(b := None)\<rparr>"

definition createUniformBuffer :: "GpuKernels \<Rightarrow> cell list \<Rightarrow> nat \<times> GpuKernels" where
  "createUniformBuffer K contents = allocBuffer K contents"

definition newVoxelGridGpu ::
  "GpuKernels \<Rightarrow> real \<Rightarrow> nat \<Rightarrow> nat \<Rightarrow> nat \<Rightarrow> Vector3 \<Rightarrow> celltype \<Rightarrow> VoxelGridGpu \<times> GpuKernels" where
  "newVoxelGridGpu K r nx ny nz off ty =
     (case allocBuffer K (replicate (nx * ny * nz) (zeroOf ty)) of
        (b, K') \<Rightarrow>
          (\<lparr>res = r, numX = nx, numY = ny, numZ = nz, ofs = off, type = ty, buffer = Some b\<rparr>, K'))"

definition createLike ::
  "GpuKernels \<Rightarrow> VoxelGridGpu \<Rightarrow> celltype option \<Rightarrow> VoxelGridGpu \<times> GpuKernels" where
  "createLike K buf ty =
     newVoxelGridGpu K (res buf) (numX buf) (numY buf) (numZ buf) (ofs buf)
       (case ty of None \<Rightarrow> type buf | Some t \<Rightarrow> t)"

text \<open>\<^verbatim>\<open>destroy(buf)\<close> of a grid: \<^verbatim>\<open>buf.buffer.destroy()\<close> throws on a null buffer.\<close>

definition destroy :: "GpuKernels \<Rightarrow> VoxelGridGpu \<Rightarrow> (error + unit) \<times> GpuKernels" where
  "destroy K buf =
     (case buffer buf of
        None \<Rightarrow> (Inl (TypeError ''destroy''), K)
      | Some b \<Rightarrow> (Inr (), destroyBuffer K b))"

fun checkGridCompat ::
  "VoxelGridGpu \<Rightarrow> VoxelGridGpu list \<Rightarrow> error + unit grid_meta_ext" where
  "checkGridCompat grid1 [] =
     Inr \<lparr>res = res grid1, numX = numX grid1, numY = numY grid1, numZ = numZ grid1, ofs = ofs grid1\<rparr>"
| "checkGridCompat grid1 (grid2 # grids) =
     (if numX grid1 \<noteq> numX grid2 \<or> numY grid1 \<noteq> numY grid2 \<or> numZ grid1 \<noteq> numZ grid2
      then Inl GridSizeMismatch
      else if vec_x (ofs grid1) \<noteq> vec_x (ofs grid2) \<or> vec_y (ofs grid1) \<noteq> vec_y (ofs grid2)
              \<or> vec_z (ofs grid1) \<noteq> vec_z (ofs grid2)
      then Inl GridOffsetMismatch
      else if res grid1 \<noteq> res grid2 then Inl GridResolutionMismatch
      else checkGridCompat grid1 grids)"

text \<open>Device-to-device \<^verbatim>\<open>copyBuffer\<close> and \<^verbatim>\<open>copy\<close>.\<close>

definition byteSize :: "cell list \<Rightarrow> nat" where
  "byteSize cs = sum_list (map sizeOfCell cs)"

definition copyBuffer :: "GpuKernels \<Rightarrow> nat option \<Rightarrow> nat option \<Rightarrow> (error + unit) \<times> GpuKernels" where
  "copyBuffer K inBuf outBuf =
     (if inBuf = outBuf then (Inr (), K)
      else
        (case (inBuf, outBuf) of
           (Some i, Some o') \<Rightarrow>
             (case (buffers K i, buffers K o') of
                (Some src, Some dst) \<Rightarrow>
                  if byteSize src \<noteq> byteSize dst then (Inl BufferSizeMismatch, K)
                  else (Inr (), K\<lparr>buffers := (buffers K)(o' \<mapsto> src)\<rparr>)
              | _ \<Rightarrow> (Inl (TypeError ''copyBuffer''), K))
         | _ \<Rightarrow> (Inl (TypeError ''copyBuffer''), K)))"

definition copy :: "GpuKernels \<Rightarrow> VoxelGridGpu \<Rightarrow> VoxelGridGpu \<Rightarrow> (error + unit) \<times> GpuKernels" where
  "copy K inBuf outBuf =
     (if sameObject inBuf outBuf then (Inr (), K)
      else
        (case checkGridCompat inBuf [outBuf] of
           Inl e \<Rightarrow> (Inl e, K)
         | Inr g \<Rightarrow> copyBuffer K (buffer inBuf) (buffer outBuf)))"

subsection \<open>Kernels\<close>

text \<open>
  The pipeline \<^verbatim>\<open>registerMapFn\<close> compiles around a snippet: the snippet is the function
  from \<open>p\<close> and \<open>vi\<close> to \<open>vo\<close>.
\<close>

definition mapPipeline :: "(Vector3 \<Rightarrow> cell \<Rightarrow> cell) \<Rightarrow> pipeline" where
  "mapPipeline snippet args nums ofs_res index mem =
     (case args of
        [b_in, b_out] \<Rightarrow>
          (case (mem b_in, mem b_out) of
             (Some vs_in, Some vs_out) \<Rightarrow>
               if index \<ge> length vs_in then mem
               else
                 (let p = cell_center ofs_res (decompose_ix nums index);
                      vi = vs_in ! index;
                      vo = snippet p vi
                  in mem(b_out \<mapsto> vs_out[index := vo]))
           | _ \<Rightarrow> mem)
      | _ \<Rightarrow> mem)"

text \<open>
  The map2 kernel guards on the length of \<open>vs_in1\<close> only; a read of \<open>vs_in2\<close> past its
  end is given the value zero.
\<close>

definition map2Pipeline :: "(Vector3 \<Rightarrow> cell \<Rightarrow> cell \<Rightarrow> cell) \<Rightarrow> pipeline" where
  "map2Pipeline snippet args nums ofs_res index mem =
     (case args of
        [b_in1, b_in2, b_out] \<Rightarrow>
          (case (mem b_in1, mem b_in2, mem b_out) of
             (Some vs_in1, Some vs_in2, Some vs_out) \<Rightarrow>
               if index \<ge> length vs_in1 then mem
               else
                 (let p = cell_center ofs_res (decompose_ix nums index);
                      vi1 = vs_in1 ! index;
                      vi2 = (if index < length vs_in2 then vs_in2 ! index else CU32 0);
                      vo = snippet p vi1 vi2
                  in mem(b_out \<mapsto> vs_out[index := vo]))
           | _ \<Rightarrow> mem)
      | _ \<Rightarrow> mem)"

text \<open>
  The jump-flood kernel works in place on \<open>df\<close>: an invocation reads the slots of its six
  neighbours at distance \<open>nums.w\<close> and writes its own slot. \<open>jumpFloodStep\<close> is the body
  of the loop over the six offsets, \<open>jump_flood\<close> the entry point on the array bound at
  binding 0.
\<close>

definition offsets :: "(int \<times> int \<times> int) list" where
  "offsets = [(-1, 0, 0), (1, 0, 0), (0, -1, 0), (0, 1, 0), (0, 0, -1), (0, 0, 1)]"

definition jumpFloodStep ::
  "vec4u \<Rightarrow> cell list \<Rightarrow> Vector3 \<Rightarrow> nat \<times> nat \<times> nat \<Rightarrow> int \<times> int \<times> int \<Rightarrow> cell \<Rightarrow> cell" where
  "jumpFloodStep nums df p ix3 off sd =
     (case nums of (nx, ny, nz, nw) \<Rightarrow>
      case ix3 of (ix, iy, iz) \<Rightarrow>
      case off of (ox, oy, oz) \<Rightarrow>
        (let nix = int ix + ox * int nw;
             niy = int iy + oy * int nw;
             niz = int iz + oz * int nw
         in if (nix < 0 \<or> niy < 0 \<or> niz < 0) \<or> (nix \<ge> int nx \<or> niy \<ge> int ny \<or> niz \<ge> int nz)
            then sd
            else
              (let n = compose_ix nums (nat nix, nat niy, nat niz);
                   nsd = df ! n
               in if w_of nsd < 0 then sd
                  else
                    (let nd = distanceTo (xyz_of nsd) p
                     in if w_of sd < 0 \<or> nd < w_of sd then CVec4 (xyz_of nsd) nd else sd))))"

definition jump_flood :: "vec4u \<Rightarrow> vec4f \<Rightarrow> nat \<Rightarrow> cell list \<Rightarrow> cell list" where
  "jump_flood nums ofs_res ix df =
     (if ix \<ge> length df then df
      else
        (let ix3 = decompose_ix nums ix;
             p = cell_center ofs_res ix3;
             sd = df ! ix
         in if w_of sd = 0 then df
            else df[ix := fold (jumpFloodStep nums df p ix3) offsets sd]))"

definition jumpFloodPipeline :: pipeline where
  "jumpFloodPipeline args nums ofs_res ix mem =
     (case args of
        [b] \<Rightarrow>
          (case mem b of
             Some df \<Rightarrow> mem(b \<mapsto> jump_flood nums ofs_res ix df)
           | None \<Rightarrow> mem)
      | _ \<Rightarrow> mem)"

text \<open>The snippets the constructor registers.\<close>

definition df_init :: "Vector3 \<Rightarrow> cell \<Rightarrow> cell" where
  "df_init p vi = (if u32_of vi > 0 then CVec4 p 0 else CVec4 (Vector3 0 0 0) (- 1))"

definition df_to_dist :: "Vector3 \<Rightarrow> cell \<Rightarrow> cell" where
  "df_to_dist p vi = CF32 (w_of vi)"

definition project_to_axis :: "Vector3 \<Rightarrow> cell \<Rightarrow> cell" where
  "project_to_axis p vi =
     (let axis = Vector3 1 0 0 in
      if u32_of vi > 0 then CF32 (dot axis p) else CF32 invalidValue)"

definition min_ignore_invalid :: "cell \<Rightarrow> cell \<Rightarrow> cell" where
  "min_ignore_invalid vi1 vi2 =
     CF32 (min (if f32_of vi1 = invalidValue then 100000 else f32_of vi1)
               (if f32_of vi2 = invalidValue then 100000 else f32_of vi2))"

definition max_ignore_invalid :: "cell \<Rightarrow> cell \<Rightarrow> cell" where
  "max_ignore_invalid vi1 vi2 =
     CF32 (max (if f32_of vi1 = invalidValue then - 100000 else f32_of vi1)
               (if f32_of vi2 = invalidValue then - 100000 else f32_of vi2))"

text \<open>
  Registration. The element types select the WGSL types of the buffers; cells carry their
  type here, so the types are not used further. A reduce pipeline is determined by its
  initial value and its snippet, and the table keeps these two: the kernel compiled from
  them is never dispatched (see \<open>reduce\<close> below).
\<close>

definition registerMapFn ::
  "GpuKernels \<Rightarrow> string \<Rightarrow> celltype \<Rightarrow> celltype \<Rightarrow> (Vector3 \<Rightarrow> cell \<Rightarrow> cell)
     \<Rightarrow> error + GpuKernels" where
  "registerMapFn K name inType outType snippet =
     (case mapPipelines K name of
        Some pl \<Rightarrow> Inl (AlreadyRegistered name)
      | None \<Rightarrow> Inr (K\<lparr>mapPipelines := (mapPipelines K)(name \<mapsto> mapPipeline snippet)\<rparr>))"

definition registerMap2Fn ::
  "GpuKernels \<Rightarrow> string \<Rightarrow> celltype \<Rightarrow> celltype \<Rightarrow> celltype
     \<Rightarrow> (Vector3 \<Rightarrow> cell \<Rightarrow> cell \<Rightarrow> cell) \<Rightarrow> error + GpuKernels" where
  "registerMap2Fn K name inType1 inType2 outType snippet =
     (case map2Pipelines K name of
        Some pl \<Rightarrow> Inl (AlreadyRegistered name)
      | None \<Rightarrow> Inr (K\<lparr>map2Pipelines := (map2Pipelines K)(name \<mapsto> map2Pipeline snippet)\<rparr>))"

definition registerReduceFn ::
  "GpuKernels \<Rightarrow> string \<Rightarrow> celltype \<Rightarrow> cell \<Rightarrow> (cell \<Rightarrow> cell \<Rightarrow> cell)
     \<Rightarrow> error + GpuKernels" where
  "registerReduceFn K name valType initVal snippet =
     (case reducePipelines K name of
        Some pl \<Rightarrow> Inl (AlreadyRegistered name)
      | None \<Rightarrow> Inr (K\<lparr>reducePipelines := (reducePipelines K)(name \<mapsto> (initVal, snippet))\<rparr>))"

text \<open>
  The state the constructor leaves: no buffers, and the tables with the five kernels it
  registers. Both reductions are registered with the initial value \<^verbatim>\<open>1e5\<close>.
\<close>

definition newGpuKernels :: GpuKernels where
  "newGpuKernels =
     \<lparr>buffers = Map.empty, nextBuffer = 0,
      mapPipelines = [''df_init'' \<mapsto> mapPipeline df_init,
                      ''df_to_dist'' \<mapsto> mapPipeline df_to_dist,
                      ''project_to_axis'' \<mapsto> mapPipeline project_to_axis],
      map2Pipelines = Map.empty,
      reducePipelines = [''min_ignore_invalid'' \<mapsto> (CF32 100000, min_ignore_invalid),
                         ''max_ignore_invalid'' \<mapsto> (CF32 100000, max_ignore_invalid)]\<rparr>"

subsection \<open>Dispatch\<close>

fun vec4u_of :: "cell list \<Rightarrow> vec4u" where
  "vec4u_of [a, b, c, d] = (u32_of a, u32_of b, u32_of c, u32_of d)"
| "vec4u_of cs = (0, 0, 0, 0)"

fun vec4f_of :: "cell list \<Rightarrow> vec4f" where
  "vec4f_of [a, b, c, d] = (Vector3 (f32_of a) (f32_of b) (f32_of c), f32_of d)"
| "vec4f_of cs = (Vector3 0 0 0, 0)"

text \<open>
  \<^verbatim>\<open>#dispatchKernel\<close> binds the buffers (a null or destroyed buffer makes
  \<^verbatim>\<open>createBindGroup\<close> throw) and starts \<open>\<lceil>numThreads / 128\<rceil>\<close> workgroups of 128
  invocations. The device runs the invocations concurrently; \<open>sched\<close> gives the order
  in which they take effect, each invocation running as a whole.
\<close>

definition dispatchKernel ::
  "GpuKernels \<Rightarrow> (nat list \<Rightarrow> nat list) \<Rightarrow> pipeline \<Rightarrow> nat option list \<Rightarrow> nat \<Rightarrow> nat \<Rightarrow> nat
     \<Rightarrow> error + GpuKernels" where
  "dispatchKernel K sched pl args numThreads numsBuf ofsBuf =
     (if list_ex (\<lambda>a. case a of None \<Rightarrow> True | Some b \<Rightarrow> buffers K b = None) args
      then Inl (TypeError ''createBindGroup'')
      else
        (case (buffers K numsBuf, buffers K ofsBuf) of
           (Some nums, Some ofs_res) \<Rightarrow>
             Inr (K\<lparr>buffers :=
                    fold (pl (map the args) (vec4u_of nums) (vec4f_of ofs_res))
                      (sched [0..<((numThreads + 127) div 128) * 128]) (buffers K)\<rparr>)
         | _ \<Rightarrow> Inl (TypeError ''createBindGroup'')))"

definition inOrder :: "nat list \<Rightarrow> nat list" where
  "inOrder ids = ids"

definition numsOf :: "unit grid_meta_ext \<Rightarrow> nat \<Rightarrow> cell list" where
  "numsOf grid aux = [CU32 (numX grid), CU32 (numY grid), CU32 (numZ grid), CU32 aux]"

definition ofsResOf :: "unit grid_meta_ext \<Rightarrow> cell list" where
  "ofsResOf grid =
     [CF32 (vec_x (ofs grid)), CF32 (vec_y (ofs grid)), CF32 (vec_z (ofs grid)), CF32 (res grid)]"

text \<open>
  \<^verbatim>\<open>map\<close>. When \<open>outBuf\<close> is \<open>inBuf\<close>, a temporary grid takes the place of \<open>outBuf\<close>;
  after the dispatch the code tests \<^verbatim>\<open>inBuf === outBuf\<close> again, with \<open>outBuf\<close> as
  reassigned. The two uniform buffers are destroyed in the \<^verbatim>\<open>finally\<close> block.
  In a map kernel no invocation reads what another writes, so the invocations are taken
  in the order of their ids.
\<close>

definition map_grid ::
  "GpuKernels \<Rightarrow> string \<Rightarrow> VoxelGridGpu \<Rightarrow> VoxelGridGpu \<Rightarrow> (error + unit) \<times> GpuKernels" where
  "map_grid K fnName inBuf outBuf0 =
     (case checkGridCompat inBuf [outBuf0] of
        Inl e \<Rightarrow> (Inl e, K)
      | Inr grid \<Rightarrow>
          (case mapPipelines K fnName of
             None \<Rightarrow> (Inl (MapFnNotRegistered fnName), K)
           | Some pl \<Rightarrow>
               (case (if sameObject outBuf0 inBuf
                      then (case createLike K inBuf None of (t, K') \<Rightarrow> (Some t, t, K'))
                      else (None, outBuf0, K)) of
                  (tmpBuf, outBuf, K1) \<Rightarrow>
               (case createUniformBuffer K1 (numsOf grid 0) of (numsBuf, K2) \<Rightarrow>
               (case createUniformBuffer K2 (ofsResOf grid) of (ofsBuf, K3) \<Rightarrow>
               (case (case dispatchKernel K3 inOrder pl [buffer inBuf, buffer outBuf]
                             (numX grid * numY grid * numZ grid) numsBuf ofsBuf of
                        Inl e \<Rightarrow> (Inl e, K3)
                      | Inr K4 \<Rightarrow>
                          if sameObject inBuf outBuf
                          then (case tmpBuf of
                                  None \<Rightarrow> (Inl (TypeError ''copy''), K4)
                                | Some t \<Rightarrow>
                                    (case copy K4 t inBuf of
                                       (Inl e, K5) \<Rightarrow> (Inl e, K5)
                                     | (Inr u, K5) \<Rightarrow> destroy K5 t))
                          else (Inr (), K4)) of
                  (r, K6) \<Rightarrow> (r, destroyBuffer (destroyBuffer K6 numsBuf) ofsBuf)))))))"

definition map2_grid ::
  "GpuKernels \<Rightarrow> string \<Rightarrow> VoxelGridGpu \<Rightarrow> VoxelGridGpu \<Rightarrow> VoxelGridGpu
     \<Rightarrow> (error + unit) \<times> GpuKernels" where
  "map2_grid K fnName inBuf1 inBuf2 outBuf0 =
     (case checkGridCompat inBuf1 [inBuf2, outBuf0] of
        Inl e \<Rightarrow> (Inl e, K)
      | Inr grid \<Rightarrow>
          (case map2Pipelines K fnName of
             None \<Rightarrow> (Inl (Map2FnNotRegistered fnName), K)
           | Some pl \<Rightarrow>
               (case (if sameObject outBuf0 inBuf1
                      then (case createLike K inBuf1 None of (t, K') \<Rightarrow> (Some t, t, K'))
                      else if sameObject outBuf0 inBuf2
                      then (case createLike K inBuf2 None of (t, K') \<Rightarrow> (Some t, t, K'))
                      else (None, outBuf0, K)) of
                  (tmpBuf, outBuf, K1) \<Rightarrow>
               (case createUniformBuffer K1 (numsOf grid 0) of (numsBuf, K2) \<Rightarrow>
               (case createUniformBuffer K2 (ofsResOf grid) of (ofsBuf, K3) \<Rightarrow>
               (case (case dispatchKernel K3 inOrder pl [buffer inBuf1, buffer inBuf2, buffer outBuf]
                             (numX grid * numY grid * numZ grid) numsBuf ofsBuf of
                        Inl e \<Rightarrow> (Inl e, K3)
                      | Inr K4 \<Rightarrow>
                          if sameObject inBuf1 outBuf
                          then (case tmpBuf of
                                  None \<Rightarrow> (Inl (TypeError ''copy''), K4)
                                | Some t \<Rightarrow>
                                    (case copy K4 t inBuf1 of
                                       (Inl e, K5) \<Rightarrow> (Inl e, K5)
                                     | (Inr u, K5) \<Rightarrow> destroy K5 t))
                          else if sameObject inBuf2 outBuf
                          then (case tmpBuf of
                                  None \<Rightarrow> (Inl (TypeError ''copy''), K4)
                                | Some t \<Rightarrow>
                                    (case copy K4 t inBuf2 of
                                       (Inl e, K5) \<Rightarrow> (Inl e, K5)
                                     | (Inr u, K5) \<Rightarrow> destroy K5 t))
                          else (Inr (), K4)) of
                  (r, K6) \<Rightarrow> (r, destroyBuffer (destroyBuffer K6 numsBuf) ofsBuf)))))))"

text \<open>
  \<^verbatim>\<open>reduce\<close>. After the registration check the method makes two temporary grids and
  starts a copy, then calls \<^verbatim>\<open>createUniformBuffer\<close>, which creates the buffer
  (zero-filled, 32 bytes) and runs the initializer. The initializer reads \<^verbatim>\<open>grid.numX\<close>,
  but no \<^verbatim>\<open>grid\<close> is declared in \<^verbatim>\<open>reduce\<close>, in the class or in the module (in
  \<^verbatim>\<open>map\<close>, \<^verbatim>\<open>map2\<close> and \<^verbatim>\<open>distField\<close> it is the result of
  \<^verbatim>\<open>#checkGridCompat\<close>), so the read throws a ReferenceError. This is before the
  \<^verbatim>\<open>try\<close> block: nothing is destroyed, and the statements after it never run.
\<close>

definition reduce ::
  "GpuKernels \<Rightarrow> string \<Rightarrow> VoxelGridGpu \<Rightarrow> (error + real) \<times> GpuKernels" where
  "reduce K fnName inBuf =
     (case reducePipelines K fnName of
        None \<Rightarrow> (Inl (ReduceFnNotRegistered fnName), K)
      | Some pl \<Rightarrow>
          (case createLike K inBuf None of (tempBuf0, K1) \<Rightarrow>
          (case createLike K1 inBuf None of (tempBuf1, K2) \<Rightarrow>
          (case copy K2 inBuf tempBuf0 of (r, K3) \<Rightarrow>
          (case allocBuffer K3 (replicate 8 (CU32 0)) of (numsBuf, K4) \<Rightarrow>
             (Inl (ReferenceError ''grid''), K4))))))"

text \<open>
  \<^verbatim>\<open>boundOfAxis\<close> awaits the two reductions of \<open>inBuf\<close> itself; \<open>dir\<close> is not used.
  An unknown \<open>boundary\<close> makes the offset \<^verbatim>\<open>undefined\<close> and both bounds NaN.
\<close>

definition boundOfAxis ::
  "GpuKernels \<Rightarrow> Vector3 \<Rightarrow> VoxelGridGpu \<Rightarrow> string
     \<Rightarrow> (error + real option \<times> real option) \<times> GpuKernels" where
  "boundOfAxis K dir inBuf boundary =
     (case reduce K ''min_ignore_invalid'' inBuf of
        (Inl e, K1) \<Rightarrow> (Inl e, K1)
      | (Inr mn, K1) \<Rightarrow>
          (case reduce K1 ''max_ignore_invalid'' inBuf of
             (Inl e, K2) \<Rightarrow> (Inl e, K2)
           | (Inr mx, K2) \<Rightarrow>
               (let maxVoxelCenterOfs = res inBuf * sqrt 3 * 0.5 in
                case (if boundary = ''in'' then Some (- maxVoxelCenterOfs)
                      else if boundary = ''out'' then Some maxVoxelCenterOfs
                      else if boundary = ''nearest'' then Some 0
                      else None) of
                  None \<Rightarrow> (Inr (None, None), K2)
                | Some offset \<Rightarrow> (Inr (Some (mn - offset), Some (mx + offset)), K2))))"

text \<open>
  \<^verbatim>\<open>distField\<close>. \<open>ceil_log2 m\<close> is \<^verbatim>\<open>Math.ceil(Math.log2(m))\<close> for \<open>m \<ge> 1\<close>; for
  \<open>m = 0\<close> the source gets \<open>-\<infinity>\<close> and likewise runs no pass. \<open>sched pass\<close> is the order
  in which the invocations of pass \<open>pass\<close> take effect.
\<close>

fun ceil_log2 :: "nat \<Rightarrow> nat" where
  "ceil_log2 m = (if m \<le> 1 then 0 else Suc (ceil_log2 ((m + 1) div 2)))"

definition jumpFloodPass ::
  "(nat \<Rightarrow> nat list \<Rightarrow> nat list) \<Rightarrow> unit grid_meta_ext \<Rightarrow> VoxelGridGpu \<Rightarrow> nat \<Rightarrow> nat
     \<Rightarrow> (error + unit) \<times> GpuKernels \<Rightarrow> (error + unit) \<times> GpuKernels" where
  "jumpFloodPass sched grid df numPass pass rK =
     (case rK of
        (Inl e, K) \<Rightarrow> (Inl e, K)
      | (Inr u, K) \<Rightarrow>
          (let step = 2 ^ (numPass - pass - 1) in
           case createUniformBuffer K (numsOf grid step) of (numsBuf, K1) \<Rightarrow>
           (case createUniformBuffer K1 (ofsResOf grid) of (ofsBuf, K2) \<Rightarrow>
           (case dispatchKernel K2 (sched pass) jumpFloodPipeline [buffer df]
                   (numX grid * numY grid * numZ grid) numsBuf ofsBuf of
              Inl e \<Rightarrow> (Inl e, K2)
            | Inr K3 \<Rightarrow> (Inr (), destroyBuffer (destroyBuffer K3 numsBuf) ofsBuf)))))"

definition distField ::
  "GpuKernels \<Rightarrow> (nat \<Rightarrow> nat list \<Rightarrow> nat list) \<Rightarrow> VoxelGridGpu \<Rightarrow> VoxelGridGpu
     \<Rightarrow> (error + unit) \<times> GpuKernels" where
  "distField K sched inSeedBuf outDistBuf =
     (case checkGridCompat inSeedBuf [outDistBuf] of
        Inl e \<Rightarrow> (Inl e, K)
      | Inr grid \<Rightarrow>
          (case createLike K inSeedBuf (Some Vec4F) of (df, K1) \<Rightarrow>
          (case map_grid K1 ''df_init'' inSeedBuf df of
             (Inl e, K2) \<Rightarrow> (Inl e, K2)
           | (Inr u, K2) \<Rightarrow>
               (let numPass = ceil_log2 (max (max (numX grid) (numY grid)) (numZ grid)) in
                case fold (jumpFloodPass sched grid df numPass) [0..<numPass] (Inr (), K2) of
                  (Inl e, K3) \<Rightarrow> (Inl e, K3)
                | (Inr u, K3) \<Rightarrow>
                    (case map_grid K3 ''df_to_dist'' df outDistBuf of
                       (Inl e, K4) \<Rightarrow> (Inl e, K4)
                     | (Inr u, K4) \<Rightarrow> destroy K4 df)))))"

section \<open>The distance functions are 1-Lipschitz\<close>

text \<open>
  Block culling is sound because a distance function changes by at most the distance
  between two points. This holds for every function \<^verbatim>\<open>createSdf\<close> returns, except the
  ELH function with \<open>p = q\<close>, which is NaN everywhere.
\<close>

subsection \<open>Real inequalities\<close>

lemma sqrt3_triangle:
  fixes a1 a2 a3 b1 b2 b3 :: real
  shows "sqrt ((a1 + b1)\<^sup>2 + (a2 + b2)\<^sup>2 + (a3 + b3)\<^sup>2)
           \<le> sqrt (a1\<^sup>2 + a2\<^sup>2 + a3\<^sup>2) + sqrt (b1\<^sup>2 + b2\<^sup>2 + b3\<^sup>2)"
proof -
  let ?A = "sqrt (a1\<^sup>2 + a2\<^sup>2)" and ?B = "sqrt (b1\<^sup>2 + b2\<^sup>2)"
  have A: "?A\<^sup>2 = a1\<^sup>2 + a2\<^sup>2" and B: "?B\<^sup>2 = b1\<^sup>2 + b2\<^sup>2" by simp_all
  have "sqrt ((a1 + b1)\<^sup>2 + (a2 + b2)\<^sup>2) \<le> ?A + ?B"
    by (rule real_sqrt_sum_squares_triangle_ineq)
  then have "(sqrt ((a1 + b1)\<^sup>2 + (a2 + b2)\<^sup>2))\<^sup>2 \<le> (?A + ?B)\<^sup>2"
    by (intro power_mono) simp_all
  then have "(a1 + b1)\<^sup>2 + (a2 + b2)\<^sup>2 \<le> (?A + ?B)\<^sup>2" by simp
  then have "sqrt ((a1 + b1)\<^sup>2 + (a2 + b2)\<^sup>2 + (a3 + b3)\<^sup>2)
               \<le> sqrt ((?A + ?B)\<^sup>2 + (a3 + b3)\<^sup>2)"
    by (intro real_sqrt_le_mono) simp
  also have "\<dots> \<le> sqrt (?A\<^sup>2 + a3\<^sup>2) + sqrt (?B\<^sup>2 + b3\<^sup>2)"
    by (rule real_sqrt_sum_squares_triangle_ineq)
  finally show ?thesis by (simp only: A B)
qed

lemma sqrt3_mono:
  fixes a1 a2 a3 b1 b2 b3 :: real
  assumes "\<bar>a1\<bar> \<le> \<bar>b1\<bar>" "\<bar>a2\<bar> \<le> \<bar>b2\<bar>" "\<bar>a3\<bar> \<le> \<bar>b3\<bar>"
  shows "sqrt (a1\<^sup>2 + a2\<^sup>2 + a3\<^sup>2) \<le> sqrt (b1\<^sup>2 + b2\<^sup>2 + b3\<^sup>2)"
proof -
  have "a1\<^sup>2 \<le> b1\<^sup>2" "a2\<^sup>2 \<le> b2\<^sup>2" "a3\<^sup>2 \<le> b3\<^sup>2"
    using assms by (simp_all add: abs_le_square_iff)
  then show ?thesis by (intro real_sqrt_le_mono) linarith
qed

lemma coord_le_sqrt3:
  fixes a1 a2 a3 :: real
  shows "\<bar>a1\<bar> \<le> sqrt (a1\<^sup>2 + a2\<^sup>2 + a3\<^sup>2)" "\<bar>a2\<bar> \<le> sqrt (a1\<^sup>2 + a2\<^sup>2 + a3\<^sup>2)"
        "\<bar>a3\<bar> \<le> sqrt (a1\<^sup>2 + a2\<^sup>2 + a3\<^sup>2)"
  by (rule real_le_rsqrt, simp)+

lemma sqrt3_le_sum:
  fixes p1 p2 p3 :: real
  assumes "0 \<le> p1" "0 \<le> p2" "0 \<le> p3"
  shows "sqrt (p1\<^sup>2 + p2\<^sup>2 + p3\<^sup>2) \<le> p1 + p2 + p3"
proof (rule real_le_lsqrt)
  show "0 \<le> p1 + p2 + p3" using assms by simp
  have "0 \<le> p1 * p2" "0 \<le> p1 * p3" "0 \<le> p2 * p3" using assms by simp_all
  moreover have "(p1 + p2 + p3)\<^sup>2 = p1\<^sup>2 + p2\<^sup>2 + p3\<^sup>2 + 2 * (p1 * p2) + 2 * (p1 * p3) + 2 * (p2 * p3)"
    by (simp add: power2_eq_square algebra_simps)
  ultimately show "p1\<^sup>2 + p2\<^sup>2 + p3\<^sup>2 \<le> (p1 + p2 + p3)\<^sup>2" by linarith
qed

lemma orthant_in_out:
  fixes a1 a2 a3 b1 b2 b3 m :: real
  assumes m: "0 \<le> m" and b: "b1 \<le> - m" "b2 \<le> - m" "b3 \<le> - m"
      and pos: "0 < a1 \<or> 0 < a2 \<or> 0 < a3"
  shows "sqrt ((max 0 a1)\<^sup>2 + (max 0 a2)\<^sup>2 + (max 0 a3)\<^sup>2) + m
           \<le> sqrt ((a1 - b1)\<^sup>2 + (a2 - b2)\<^sup>2 + (a3 - b3)\<^sup>2)"
proof -
  let ?p1 = "max 0 a1" and ?p2 = "max 0 a2" and ?p3 = "max 0 a3"
  let ?N = "sqrt (?p1\<^sup>2 + ?p2\<^sup>2 + ?p3\<^sup>2)"
  define t1 :: real where "t1 = (if 0 < a1 then 1 else 0)"
  define t2 :: real where "t2 = (if 0 < a2 then 1 else 0)"
  define t3 :: real where "t3 = (if 0 < a3 then 1 else 0)"
  have coord: "(a - b)\<^sup>2 \<ge> (max 0 a)\<^sup>2 + 2 * m * max 0 a + m\<^sup>2 * (if 0 < a then 1 else 0)"
    if "b \<le> - m" for a b :: real
  proof (cases "0 < a")
    case True
    then have "0 \<le> a + m" "a + m \<le> a - b" using m that by simp_all
    then have "(a + m)\<^sup>2 \<le> (a - b)\<^sup>2" by (intro power_mono) simp_all
    with True show ?thesis by (simp add: power2_sum max_def algebra_simps)
  next
    case False
    then show ?thesis by (simp add: max_def)
  qed
  have N2: "?N\<^sup>2 = ?p1\<^sup>2 + ?p2\<^sup>2 + ?p3\<^sup>2" by simp
  have N1: "?N \<le> ?p1 + ?p2 + ?p3"
    by (rule sqrt3_le_sum) simp_all
  have T: "1 \<le> t1 + t2 + t3" using pos by (auto simp: t1_def t2_def t3_def)
  have "(?N + m)\<^sup>2 = ?N\<^sup>2 + 2 * m * ?N + m\<^sup>2" by (simp add: power2_sum algebra_simps)
  also have "\<dots> \<le> ?N\<^sup>2 + 2 * m * (?p1 + ?p2 + ?p3) + m\<^sup>2 * (t1 + t2 + t3)"
  proof -
    have "2 * m * ?N \<le> 2 * m * (?p1 + ?p2 + ?p3)"
      using N1 m by (intro mult_left_mono) simp_all
    moreover have "m\<^sup>2 * 1 \<le> m\<^sup>2 * (t1 + t2 + t3)"
      using T by (intro mult_left_mono) simp_all
    ultimately show ?thesis by simp
  qed
  also have "\<dots> \<le> (a1 - b1)\<^sup>2 + (a2 - b2)\<^sup>2 + (a3 - b3)\<^sup>2"
    using coord [OF b(1), of a1] coord [OF b(2), of a2] coord [OF b(3), of a3]
    unfolding N2 t1_def t2_def t3_def by (simp add: algebra_simps)
  finally have "(?N + m)\<^sup>2 \<le> (a1 - b1)\<^sup>2 + (a2 - b2)\<^sup>2 + (a3 - b3)\<^sup>2" .
  then have "\<bar>?N + m\<bar> \<le> sqrt ((a1 - b1)\<^sup>2 + (a2 - b2)\<^sup>2 + (a3 - b3)\<^sup>2)"
    by (metis real_sqrt_abs real_sqrt_le_mono)
  then show ?thesis by linarith
qed

lemma orthant3_le:
  fixes a1 a2 a3 b1 b2 b3 :: real
  shows "min 0 (max (max a1 a2) a3) + sqrt ((max 0 a1)\<^sup>2 + (max 0 a2)\<^sup>2 + (max 0 a3)\<^sup>2)
           \<le> min 0 (max (max b1 b2) b3) + sqrt ((max 0 b1)\<^sup>2 + (max 0 b2)\<^sup>2 + (max 0 b3)\<^sup>2)
              + sqrt ((a1 - b1)\<^sup>2 + (a2 - b2)\<^sup>2 + (a3 - b3)\<^sup>2)"
proof -
  define D where "D = sqrt ((a1 - b1)\<^sup>2 + (a2 - b2)\<^sup>2 + (a3 - b3)\<^sup>2)"
  define Na where "Na = sqrt ((max 0 a1)\<^sup>2 + (max 0 a2)\<^sup>2 + (max 0 a3)\<^sup>2)"
  define Nb where "Nb = sqrt ((max 0 b1)\<^sup>2 + (max 0 b2)\<^sup>2 + (max 0 b3)\<^sup>2)"
  define Ma where "Ma = max (max a1 a2) a3"
  define Mb where "Mb = max (max b1 b2) b3"
  have D0: "0 \<le> D" and Na0: "0 \<le> Na" and Nb0: "0 \<le> Nb"
    by (simp_all add: D_def Na_def Nb_def)
  have Dc: "\<bar>a1 - b1\<bar> \<le> D" "\<bar>a2 - b2\<bar> \<le> D" "\<bar>a3 - b3\<bar> \<le> D"
    unfolding D_def by (rule coord_le_sqrt3)+
  have inside: "Na = 0" if "Ma \<le> 0"
    using that by (simp add: Na_def Ma_def max_def split: if_splits)
  have insideb: "Nb = 0" if "Mb \<le> 0"
    using that by (simp add: Nb_def Mb_def max_def split: if_splits)
  have "min 0 Ma + Na \<le> min 0 Mb + Nb + D"
  proof (cases "Ma \<le> 0")
    case aIn: True
    show ?thesis
    proof (cases "Mb \<le> 0")
      case True
      have "b1 \<le> Mb" "b2 \<le> Mb" "b3 \<le> Mb" by (simp_all add: Mb_def)
      with Dc have "a1 \<le> Mb + D" "a2 \<le> Mb + D" "a3 \<le> Mb + D" by linarith+
      then have "Ma \<le> Mb + D" by (simp add: Ma_def)
      with aIn True inside [OF aIn] insideb [OF True] show ?thesis by linarith
    next
      case False
      with aIn inside [OF aIn] D0 Nb0 show ?thesis by linarith
    qed
  next
    case aOut: False
    then have pos: "0 < a1 \<or> 0 < a2 \<or> 0 < a3" by (auto simp: Ma_def max_def split: if_splits)
    show ?thesis
    proof (cases "Mb \<le> 0")
      case True
      have m: "0 \<le> - Mb" "b1 \<le> - (- Mb)" "b2 \<le> - (- Mb)" "b3 \<le> - (- Mb)"
        using True by (simp_all add: Mb_def)
      from orthant_in_out [OF m pos] have "Na + (- Mb) \<le> D" by (simp add: Na_def D_def)
      with aOut True insideb [OF True] show ?thesis by linarith
    next
      case False
      have "Na = sqrt ((max 0 b1 + (max 0 a1 - max 0 b1))\<^sup>2 + (max 0 b2 + (max 0 a2 - max 0 b2))\<^sup>2
                 + (max 0 b3 + (max 0 a3 - max 0 b3))\<^sup>2)" by (simp add: Na_def)
      also have "\<dots> \<le> Nb + sqrt ((max 0 a1 - max 0 b1)\<^sup>2 + (max 0 a2 - max 0 b2)\<^sup>2
                 + (max 0 a3 - max 0 b3)\<^sup>2)"
        unfolding Nb_def by (rule sqrt3_triangle)
      also have "sqrt ((max 0 a1 - max 0 b1)\<^sup>2 + (max 0 a2 - max 0 b2)\<^sup>2
                 + (max 0 a3 - max 0 b3)\<^sup>2) \<le> D"
        unfolding D_def by (rule sqrt3_mono) (simp_all add: max_def)
      finally have "Na \<le> Nb + D" by simp
      with aOut False show ?thesis by linarith
    qed
  qed
  then show ?thesis by (simp only: D_def Na_def Nb_def Ma_def Mb_def)
qed


lemma orthant2_le:
  fixes a1 a2 b1 b2 :: real
  shows "min (max a1 a2) 0 + hypot (max a1 0) (max a2 0)
           \<le> min (max b1 b2) 0 + hypot (max b1 0) (max b2 0) + sqrt ((a1 - b1)\<^sup>2 + (a2 - b2)\<^sup>2)"
proof -
  define t where "t = min (min a1 b1) 0"
  have t: "t \<le> a1" "t \<le> b1" "t \<le> 0" by (simp_all add: t_def)
  then have ma: "max (max a1 a2) t = max a1 a2" and mb: "max (max b1 b2) t = max b1 b2"
    and mt: "max 0 t = 0" by simp_all
  from orthant3_le [of a1 a2 t b1 b2 t]
  show ?thesis
    unfolding ma mb mt hypot_def by (simp add: power2_eq_square min.commute max.commute)
qed

subsection \<open>Vector algebra\<close>

lemma dot_commute: "dot a b = dot b a"
  by (simp add: dot_def mult.commute)

lemma dot_sub_left: "dot (sub a b) c = dot a c - dot b c"
  by (simp add: dot_def sub_def algebra_simps)

lemma dot_sub_right: "dot c (sub a b) = dot c a - dot c b"
  by (simp add: dot_def sub_def algebra_simps)

lemma dot_mult_left: "dot (multiplyScalar a s) b = s * dot a b"
  by (simp add: dot_def multiplyScalar_def algebra_simps)

lemma dot_mult_right: "dot b (multiplyScalar a s) = s * dot b a"
  by (simp add: dot_def multiplyScalar_def algebra_simps)

lemma dot_self_nonneg: "0 \<le> dot a a"
  by (simp add: dot_def)

lemma vlength_dot: "vlength a = sqrt (dot a a)"
  by (simp add: vlength_def dot_def)

lemma vlength_sq: "(vlength a)\<^sup>2 = dot a a"
  by (simp add: vlength_dot dot_self_nonneg)

lemma lengthSq_dot: "lengthSq a = dot a a"
  by (simp add: lengthSq_def dot_def)

lemma distanceTo_vlength: "distanceTo a b = vlength (sub a b)"
  by (simp add: distanceTo_def vlength_def sub_def)

lemma vlength_power2: "vlength a = sqrt ((vec_x a)\<^sup>2 + (vec_y a)\<^sup>2 + (vec_z a)\<^sup>2)"
  by (simp add: vlength_def power2_eq_square)

lemma vlength_sub_commute: "vlength (sub a b) = vlength (sub b a)"
  by (simp add: vlength_power2 sub_def power2_commute)

lemma vlength_triangle: "vlength (sub a c) \<le> vlength (sub a b) + vlength (sub b c)"
proof -
  have "vlength (sub a c)
          = sqrt (((vec_x a - vec_x b) + (vec_x b - vec_x c))\<^sup>2
                + ((vec_y a - vec_y b) + (vec_y b - vec_y c))\<^sup>2
                + ((vec_z a - vec_z b) + (vec_z b - vec_z c))\<^sup>2)"
    by (simp add: vlength_power2 sub_def)
  also have "\<dots> \<le> sqrt ((vec_x a - vec_x b)\<^sup>2 + (vec_y a - vec_y b)\<^sup>2 + (vec_z a - vec_z b)\<^sup>2)
                  + sqrt ((vec_x b - vec_x c)\<^sup>2 + (vec_y b - vec_y c)\<^sup>2 + (vec_z b - vec_z c)\<^sup>2)"
    by (rule sqrt3_triangle)
  also have "\<dots> = vlength (sub a b) + vlength (sub b c)"
    by (simp add: vlength_power2 sub_def)
  finally show ?thesis .
qed

lemma vlength_zero_sub: "vlength (sub a (Vector3 0 0 0)) = vlength a"
  by (simp add: vlength_def sub_def)

lemma vlength_reverse_triangle: "\<bar>vlength a - vlength b\<bar> \<le> vlength (sub a b)"
proof -
  have "vlength (sub a (Vector3 0 0 0)) \<le> vlength (sub a b) + vlength (sub b (Vector3 0 0 0))"
    by (rule vlength_triangle)
  moreover have "vlength (sub b (Vector3 0 0 0)) \<le> vlength (sub b a) + vlength (sub a (Vector3 0 0 0))"
    by (rule vlength_triangle)
  ultimately show ?thesis
    by (simp add: vlength_zero_sub vlength_sub_commute [of b a])
qed

lemma unit_lengthSq: "vlength n = 1 \<Longrightarrow> dot n n = 1"
  by (simp add: vlength_dot)

lemma projectOnPlane_unit:
  assumes "vlength n = 1"
  shows "projectOnPlane a n = sub a (multiplyScalar n (dot n a))"
  using unit_lengthSq [OF assms]
  by (simp add: projectOnPlane_def projectOnVector_def lengthSq_dot)

lemma projectOnPlane_diff:
  assumes "vlength n = 1"
  shows "sub (projectOnPlane (sub x p) n) (projectOnPlane (sub y p) n) = projectOnPlane (sub x y) n"
  unfolding projectOnPlane_unit [OF assms]
  by (simp add: sub_def multiplyScalar_def dot_def algebra_simps)

lemma pythagoras_unit:
  assumes "vlength n = 1"
  shows "(dot d n)\<^sup>2 + (vlength (projectOnPlane d n))\<^sup>2 = (vlength d)\<^sup>2"
proof -
  have n: "dot n n = 1" by (rule unit_lengthSq [OF assms])
  have "dot (projectOnPlane d n) (projectOnPlane d n) = dot d d - (dot d n)\<^sup>2"
    unfolding projectOnPlane_unit [OF assms]
    by (simp add: dot_sub_left dot_sub_right dot_mult_left dot_mult_right n dot_commute [of n d]
          power2_eq_square algebra_simps)
  then show ?thesis
    by (simp add: vlength_sq)
qed

text \<open>The two partial distances combine into a function that is 1-Lipschitz.\<close>

lemma combine_le:
  fixes d1x d2x d1y d2y A B D :: real
  assumes "\<bar>d1x - d1y\<bar> \<le> A" "\<bar>d2x - d2y\<bar> \<le> B" "A\<^sup>2 + B\<^sup>2 = D\<^sup>2" "0 \<le> D"
  shows "min (max d1x d2x) 0 + hypot (max d1x 0) (max d2x 0)
           \<le> min (max d1y d2y) 0 + hypot (max d1y 0) (max d2y 0) + D"
proof -
  have "(d1x - d1y)\<^sup>2 \<le> A\<^sup>2" "(d2x - d2y)\<^sup>2 \<le> B\<^sup>2"
    using assms(1,2) by (simp_all add: abs_le_square_iff [symmetric])
  then have "sqrt ((d1x - d1y)\<^sup>2 + (d2x - d2y)\<^sup>2) \<le> sqrt (D\<^sup>2)"
    unfolding assms(3) [symmetric] by (intro real_sqrt_le_mono) linarith
  also have "\<dots> = D" using assms(4) by simp
  finally show ?thesis using orthant2_le [of d1x d2x d1y d2y] by linarith
qed

lemma sdfCylinder_le:
  assumes n: "vlength n = 1"
  shows "sdfCylinder p n r h x \<le> sdfCylinder p n r h y + distanceTo x y"
proof -
  define A where "A = \<bar>dot (sub x y) n\<bar>"
  define B where "B = vlength (projectOnPlane (sub x y) n)"
  have 1: "\<bar>(\<bar>dot (sub x p) n - h * 0.5\<bar> - h * 0.5) - (\<bar>dot (sub y p) n - h * 0.5\<bar> - h * 0.5)\<bar> \<le> A"
  proof -
    have "dot (sub x p) n - dot (sub y p) n = dot (sub x y) n"
      by (simp add: dot_sub_left)
    then show ?thesis unfolding A_def by linarith
  qed
  have 2: "\<bar>(vlength (projectOnPlane (sub x p) n) - r) - (vlength (projectOnPlane (sub y p) n) - r)\<bar> \<le> B"
    using vlength_reverse_triangle [of "projectOnPlane (sub x p) n" "projectOnPlane (sub y p) n"]
    unfolding projectOnPlane_diff [OF n] B_def by simp
  have 3: "A\<^sup>2 + B\<^sup>2 = (distanceTo x y)\<^sup>2"
    unfolding A_def B_def distanceTo_vlength using pythagoras_unit [OF n, of "sub x y"] by simp
  have 4: "0 \<le> distanceTo x y" by (simp add: distanceTo_def)
  show ?thesis
    unfolding sdfCylinder_def Let_def by (rule combine_le [OF 1 2 3 4])
qed


lemma distanceTo_triangle: "distanceTo a c \<le> distanceTo a b + distanceTo b c"
  unfolding distanceTo_vlength by (rule vlength_triangle)

lemma distanceTo_sq: "(distanceTo a b)\<^sup>2 = dot (sub a b) (sub a b)"
  by (simp add: distanceTo_vlength vlength_sq)

lemma clamp01_cases:
  fixes c L :: real
  assumes "0 < L"
  shows "(clamp01 (c / L) = 0 \<and> c \<le> 0) \<or> (clamp01 (c / L) = 1 \<and> L \<le> c)
           \<or> clamp01 (c / L) * L = c"
proof -
  consider "c \<le> 0" | "L \<le> c" | "0 < c" "c < L" by linarith
  then show ?thesis
  proof cases
    case 1
    then have "c / L \<le> 0" using assms by (simp add: divide_le_0_iff)
    then have "clamp01 (c / L) = 0" by (simp add: clamp01_def)
    with 1 show ?thesis by simp
  next
    case 2
    then have "1 \<le> c / L" using assms by simp
    then have "clamp01 (c / L) = 1" by (simp add: clamp01_def)
    with 2 show ?thesis by simp
  next
    case 3
    then have "0 < c / L" "c / L < 1" using assms by simp_all
    then have "clamp01 (c / L) = c / L" by (simp add: clamp01_def)
    then show ?thesis using assms by simp
  qed
qed

lemma clamp01_range: "0 \<le> clamp01 t" "clamp01 t \<le> 1"
  by (simp_all add: clamp01_def)

lemma segment_quadratic:
  fixes U c L s t :: real
  assumes L: "0 < L" and s: "0 \<le> s" "s \<le> 1"
      and t: "(t = 0 \<and> c \<le> 0) \<or> (t = 1 \<and> L \<le> c) \<or> t * L = c"
  shows "U - 2 * t * c + t * t * L \<le> U - 2 * s * c + s * s * L"
proof -
  from t consider "t = 0" "c \<le> 0" | "t = 1" "L \<le> c" | "t * L = c" by blast
  then show ?thesis
  proof cases
    case 1
    have "0 \<le> s * (- c)" using s 1 by (intro mult_nonneg_nonneg) simp_all
    moreover have "0 \<le> (s * s) * L" using L by (simp add: zero_le_mult_iff)
    ultimately show ?thesis using 1 by (simp add: algebra_simps)
  next
    case 2
    have "0 \<le> (1 - s) * (c - L)" using s 2 by (intro mult_nonneg_nonneg) simp_all
    moreover have "0 \<le> ((1 - s) * (1 - s)) * L" using L by (simp add: zero_le_mult_iff)
    ultimately show ?thesis using 2 by (simp add: algebra_simps)
  next
    case 3
    have "0 \<le> ((s - t) * (s - t)) * L" using L by (simp add: zero_le_mult_iff)
    then show ?thesis unfolding 3 [symmetric] by (simp add: algebra_simps)
  qed
qed

lemma segment_nearest:
  assumes L: "0 < dot dq dq" and s: "0 \<le> s" "s \<le> 1"
  shows "distanceTo u (multiplyScalar dq (clamp01 (dot u dq / dot dq dq)))
           \<le> distanceTo u (multiplyScalar dq s)"
proof -
  define t where "t = clamp01 (dot u dq / dot dq dq)"
  have sq: "dot (sub u (multiplyScalar dq k)) (sub u (multiplyScalar dq k))
              = dot u u - 2 * k * dot u dq + k * k * dot dq dq" for k
    by (simp add: dot_sub_left dot_sub_right dot_mult_left dot_mult_right dot_commute [of dq u]
          algebra_simps)
  have "dot u u - 2 * t * dot u dq + t * t * dot dq dq
          \<le> dot u u - 2 * s * dot u dq + s * s * dot dq dq"
    unfolding t_def by (rule segment_quadratic [OF L s clamp01_cases [OF L]])
  then have "(distanceTo u (multiplyScalar dq t))\<^sup>2 \<le> (distanceTo u (multiplyScalar dq s))\<^sup>2"
    by (simp only: distanceTo_sq sq)
  then show ?thesis
    unfolding t_def [symmetric] by (rule power2_le_imp_le) (simp add: distanceTo_def)
qed

lemma segment_dist_le:
  assumes L: "0 < dot dq dq"
  shows "distanceTo u (multiplyScalar dq (clamp01 (dot u dq / dot dq dq)))
           \<le> distanceTo v (multiplyScalar dq (clamp01 (dot v dq / dot dq dq))) + vlength (sub u v)"
proof -
  let ?tv = "clamp01 (dot v dq / dot dq dq)"
  have "distanceTo u (multiplyScalar dq (clamp01 (dot u dq / dot dq dq)))
          \<le> distanceTo u (multiplyScalar dq ?tv)"
    by (rule segment_nearest [OF L clamp01_range])
  also have "\<dots> \<le> distanceTo u v + distanceTo v (multiplyScalar dq ?tv)"
    by (rule distanceTo_triangle)
  finally show ?thesis by (simp add: distanceTo_vlength)
qed

lemma sdfElh_le:
  assumes n: "vlength n = 1" and dq: "dot (sub q p) (sub q p) \<noteq> 0"
  shows "\<exists>a b. sdfElh p q n r h x = Some a \<and> sdfElh p q n r h y = Some b
           \<and> a \<le> b + distanceTo x y"
proof -
  define u where "u = projectOnPlane (sub x p) n"
  define v where "v = projectOnPlane (sub y p) n"
  define seg where "seg w = distanceTo w (multiplyScalar (sub q p)
                      (clamp01 (dot w (sub q p) / dot (sub q p) (sub q p))))" for w
  define A where "A = \<bar>dot (sub x y) n\<bar>"
  define B where "B = vlength (projectOnPlane (sub x y) n)"
  have L: "0 < dot (sub q p) (sub q p)"
    using dq dot_self_nonneg [of "sub q p"] by linarith
  have uv: "sub u v = projectOnPlane (sub x y) n" "sub v u = projectOnPlane (sub y x) n"
    unfolding u_def v_def by (rule projectOnPlane_diff [OF n])+
  have Bsym: "vlength (projectOnPlane (sub y x) n) = B"
    unfolding B_def uv [symmetric] by (rule vlength_sub_commute)
  have 1: "\<bar>(\<bar>dot n (sub x p) - h * 0.5\<bar> - h * 0.5) - (\<bar>dot n (sub y p) - h * 0.5\<bar> - h * 0.5)\<bar> \<le> A"
  proof -
    have "dot n (sub x p) - dot n (sub y p) = dot (sub x y) n"
      by (simp add: dot_sub_left dot_sub_right dot_commute [of n])
    then show ?thesis unfolding A_def by linarith
  qed
  have "seg u \<le> seg v + B" "seg v \<le> seg u + B"
    using segment_dist_le [OF L, of u v] segment_dist_le [OF L, of v u]
    unfolding seg_def uv Bsym B_def [symmetric] by simp_all
  then have 2: "\<bar>(seg u - r) - (seg v - r)\<bar> \<le> B" by linarith
  have 3: "A\<^sup>2 + B\<^sup>2 = (distanceTo x y)\<^sup>2"
    unfolding A_def B_def distanceTo_vlength using pythagoras_unit [OF n, of "sub x y"] by simp
  have 4: "0 \<le> distanceTo x y" by (simp add: distanceTo_def)
  have ex: "sdfElh p q n r h x = Some (min (max (\<bar>dot n (sub x p) - h * 0.5\<bar> - h * 0.5) (seg u - r)) 0
              + hypot (max (\<bar>dot n (sub x p) - h * 0.5\<bar> - h * 0.5) 0) (max (seg u - r) 0))"
    using dq by (simp add: sdfElh_def Let_def seg_def u_def)
  have ey: "sdfElh p q n r h y = Some (min (max (\<bar>dot n (sub y p) - h * 0.5\<bar> - h * 0.5) (seg v - r)) 0
              + hypot (max (\<bar>dot n (sub y p) - h * 0.5\<bar> - h * 0.5) 0) (max (seg v - r) 0))"
    using dq by (simp add: sdfElh_def Let_def seg_def v_def)
  show ?thesis
    unfolding ex ey using combine_le [OF 1 2 3 4] by simp
qed

lemma bessel3:
  assumes orth: "dot u0 u1 = 0" "dot u0 u2 = 0" "dot u1 u2 = 0"
      and nrm: "dot u0 u0 \<le> 1" "dot u1 u1 \<le> 1" "dot u2 u2 \<le> 1"
  shows "(dot d u0)\<^sup>2 + (dot d u1)\<^sup>2 + (dot d u2)\<^sup>2 \<le> dot d d"
proof -
  define c0 where "c0 = dot d u0"
  define c1 where "c1 = dot d u1"
  define c2 where "c2 = dot d u2"
  define w where "w = sub (sub (sub d (multiplyScalar u0 c0)) (multiplyScalar u1 c1)) (multiplyScalar u2 c2)"
  have orth': "dot u1 u0 = 0" "dot u2 u0 = 0" "dot u2 u1 = 0"
    using orth by (simp_all add: dot_commute)
  have cs: "dot u0 d = c0" "dot u1 d = c1" "dot u2 d = c2" "dot d u0 = c0" "dot d u1 = c1" "dot d u2 = c2"
    by (simp_all add: c0_def c1_def c2_def dot_commute)
  have "dot w w = dot d d - 2 * c0\<^sup>2 - 2 * c1\<^sup>2 - 2 * c2\<^sup>2
                   + c0\<^sup>2 * dot u0 u0 + c1\<^sup>2 * dot u1 u1 + c2\<^sup>2 * dot u2 u2"
    unfolding w_def
    by (simp add: dot_sub_left dot_sub_right dot_mult_left dot_mult_right orth orth' cs
          power2_eq_square algebra_simps)
  moreover have "0 \<le> dot w w" by (rule dot_self_nonneg)
  moreover have "c0\<^sup>2 * dot u0 u0 \<le> c0\<^sup>2 * 1" "c1\<^sup>2 * dot u1 u1 \<le> c1\<^sup>2 * 1"
      "c2\<^sup>2 * dot u2 u2 \<le> c2\<^sup>2 * 1"
    using nrm by (intro mult_left_mono; simp)+
  ultimately show ?thesis unfolding c0_def [symmetric] c1_def [symmetric] c2_def [symmetric]
    by linarith
qed

lemma normalize_orth: "dot a b = 0 \<Longrightarrow> dot (normalize a) (normalize b) = 0"
  by (simp add: normalize_def Let_def dot_mult_left dot_mult_right)

lemma normalize_norm: "dot (normalize a) (normalize a) \<le> 1"
proof (cases "vlength a = 0")
  case True
  then have "dot a a = 0" by (simp add: vlength_dot)
  with True show ?thesis by (simp add: normalize_def dot_mult_left dot_mult_right)
next
  case False
  have "dot a a = (vlength a)\<^sup>2" by (simp add: vlength_sq)
  with False show ?thesis
    by (simp add: normalize_def dot_mult_left dot_mult_right power2_eq_square)
qed

lemma sdfBox_le:
  assumes orth: "dot h0 h1 = 0" "dot h0 h2 = 0" "dot h1 h2 = 0"
  shows "sdfBox c h0 h1 h2 x \<le> sdfBox c h0 h1 h2 y + distanceTo x y"
proof -
  define u0 where "u0 = normalize h0"
  define u1 where "u1 = normalize h1"
  define u2 where "u2 = normalize h2"
  define e where "e k w = \<bar>dot (sub w c) k\<bar>" for k w
  have diff: "\<bar>(e k x - l) - (e k y - l)\<bar> \<le> \<bar>dot (sub x y) k\<bar>" for k l
  proof -
    have "dot (sub x c) k - dot (sub y c) k = dot (sub x y) k"
      by (simp add: dot_sub_left)
    then show ?thesis unfolding e_def by linarith
  qed
  have "sqrt (((e u0 x - vlength h0) - (e u0 y - vlength h0))\<^sup>2
            + ((e u1 x - vlength h1) - (e u1 y - vlength h1))\<^sup>2
            + ((e u2 x - vlength h2) - (e u2 y - vlength h2))\<^sup>2)
          \<le> sqrt ((dot (sub x y) u0)\<^sup>2 + (dot (sub x y) u1)\<^sup>2 + (dot (sub x y) u2)\<^sup>2)"
    by (rule sqrt3_mono) (rule diff)+
  also have "\<dots> \<le> sqrt (dot (sub x y) (sub x y))"
    unfolding u0_def u1_def u2_def
    by (intro real_sqrt_le_mono bessel3 normalize_orth orth normalize_norm)
  also have "\<dots> = distanceTo x y"
    by (simp add: distanceTo_vlength vlength_dot)
  finally have D: "sqrt (((e u0 x - vlength h0) - (e u0 y - vlength h0))\<^sup>2
            + ((e u1 x - vlength h1) - (e u1 y - vlength h1))\<^sup>2
            + ((e u2 x - vlength h2) - (e u2 y - vlength h2))\<^sup>2) \<le> distanceTo x y" .
  have box: "sdfBox c h0 h1 h2 w
      = min 0 (max (max (e u0 w - vlength h0) (e u1 w - vlength h1)) (e u2 w - vlength h2))
        + sqrt ((max 0 (e u0 w - vlength h0))\<^sup>2 + (max 0 (e u1 w - vlength h1))\<^sup>2
              + (max 0 (e u2 w - vlength h2))\<^sup>2)" for w
    by (simp add: sdfBox_def Let_def e_def u0_def u1_def u2_def sub_def [of "Vector3 _ _ _"]
          vlength_power2 [of "Vector3 _ _ _"])
  show ?thesis
    unfolding box
    using orthant3_le [of "e u0 x - vlength h0" "e u1 x - vlength h1" "e u2 x - vlength h2"
                          "e u0 y - vlength h0" "e u1 y - vlength h1" "e u2 y - vlength h2"] D
    by linarith
qed

lemma createSdf_lipschitz:
  assumes "createSdf shape = Inr sdf"
  shows "(\<forall>x. sdf x = None)
       \<or> (\<forall>x y. \<exists>a b. sdf x = Some a \<and> sdf y = Some b \<and> a \<le> b + distanceTo x y)"
proof (cases shape)
  case (Cylinder p n r h)
  with assms have "vlength n = 1" and "sdf = (\<lambda>x. Some (sdfCylinder p n r h x))"
    by (auto simp: createSdfCylinder_def split: if_splits)
  then show ?thesis using sdfCylinder_le [of n p r h] by simp
next
  case (ELH p q n r h)
  with assms have n: "vlength n = 1" and sdf: "sdf = sdfElh p q n r h"
    by (auto simp: createSdfElh_def split: if_splits)
  show ?thesis
  proof (cases "dot (sub q p) (sub q p) = 0")
    case True
    then show ?thesis unfolding sdf by (simp add: sdfElh_def Let_def)
  next
    case False
    then show ?thesis unfolding sdf using sdfElh_le [OF n False] by blast
  qed
next
  case (Box c h0 h1 h2)
  with assms have "dot h0 h1 = 0" "dot h0 h2 = 0" "dot h1 h2 = 0"
      and "sdf = (\<lambda>x. Some (sdfBox c h0 h1 h2 x))"
    by (auto simp: createSdfBox_def split: if_splits)
  then show ?thesis using sdfBox_le [of h0 h1 h2 c] by simp
qed

section \<open>Traversal stays inside the grid\<close>

lemma upt_8: "[0..<8] = [0, 1, 2, 3, 4, 5, 6, 7::nat]"
  by code_simp

lemma blockCells_in_bounds:
  "(ix, iy, iz) \<in> set (blockCells vg sdf offset b) \<Longrightarrow> ix < numX vg \<and> iy < numY vg \<and> iz < numZ vg"
  by (cases b) (auto simp: blockCells_def)

lemma insideCells_in_bounds:
  "(ix, iy, iz) \<in> set (insideCells vg sdf offset) \<Longrightarrow> ix < numX vg \<and> iy < numY vg \<and> iz < numZ vg"
  unfolding insideCells_def using blockCells_in_bounds by fastforce

lemma visit_logging_subset:
  "set (snd (snd (visit (logging fn) cs (s, l)))) \<subseteq> set l \<union> set cs"
proof (induction cs arbitrary: s l)
  case Nil
  show ?case by simp
next
  case (Cons c cs)
  obtain ix iy iz where c: "c = (ix, iy, iz)" by (cases c) auto
  obtain b s' where f: "fn ix iy iz s = (b, s')" by (cases "fn ix iy iz s") auto
  show ?case
  proof (cases b)
    case True
    with c f show ?thesis by (auto simp: logging_def)
  next
    case False
    with c f Cons.IH [of s' "l @ [(ix, iy, iz)]"] show ?thesis
      by (auto simp: logging_def)
  qed
qed

text \<open>
  C10. Whatever the grid, the distance function, the offset and the visitor (and the state
  it starts from), every index triple the traversal calls the visitor with lies inside
  the grid, although the block lattice of \<open>num div 8 + 1\<close> blocks of 8 cells per axis
  reaches past the grid on every axis.
\<close>

theorem traverse_calls_in_bounds:
  "(\<forall>c \<in> set (calls vg sdf offset fn s).
      fst c < numX vg \<and> fst (snd c) < numY vg \<and> snd (snd c) < numZ vg)
   \<and> numX vg < (numX vg div blockSize + 1) * blockSize
   \<and> numY vg < (numY vg div blockSize + 1) * blockSize
   \<and> numZ vg < (numZ vg div blockSize + 1) * blockSize"
proof -
  have "set (calls vg sdf offset fn s) \<subseteq> set (insideCells vg sdf offset)"
    unfolding calls_def traverseAllPointsInside_def
    using visit_logging_subset [of fn "insideCells vg sdf offset" s "[]"] by simp
  then have "\<forall>c \<in> set (calls vg sdf offset fn s).
      fst c < numX vg \<and> fst (snd c) < numY vg \<and> snd (snd c) < numZ vg"
    using insideCells_in_bounds [of _ _ _ vg sdf offset] by fastforce
  moreover have "\<And>n::nat. n < (n div blockSize + 1) * blockSize"
    unfolding blockSize_def by presburger
  ultimately show ?thesis by blast
qed

theorem traverse_calls_in_bounds_witness:
  "(0, 0, 0) \<in> set (calls \<lparr>res = 1, numX = 1, numY = 1, numZ = 1, ofs = Vector3 0 0 0\<rparr>
                         (\<lambda>x. Some 0) 0 (\<lambda>ix iy iz s. (False, s)) ())
   \<and> (0::nat) < numX \<lparr>res = 1, numX = 1, numY = 1, numZ = 1, ofs = Vector3 0 0 0\<rparr>
   \<and> (0::nat) < numY \<lparr>res = 1, numX = 1, numY = 1, numZ = 1, ofs = Vector3 0 0 0\<rparr>
   \<and> (0::nat) < numZ \<lparr>res = 1, numX = 1, numY = 1, numZ = 1, ofs = Vector3 0 0 0\<rparr>"
  using traverse_calls_in_bounds
    [of "\<lparr>res = 1, numX = 1, numY = 1, numZ = 1, ofs = Vector3 0 0 0\<rparr>"
        "\<lambda>x. Some 0" 0 "\<lambda>ix iy iz s. (False, s)" "()"]
  by (simp add: calls_def traverseAllPointsInside_def insideCells_def blocks_def blockCells_def
        blockSize_def js_le_def blockOffset_def logging_def upt_8)

section \<open>The degenerate long hole\<close>

text \<open>
  C7. The extruded long hole with \<open>p = q\<close> (unit direction, \<open>q - p\<close> perpendicular to it,
  radius and height positive) passes every check of \<^verbatim>\<open>createSdfElh\<close>: the check
  \<^verbatim>\<open>q.distanceTo(p) < 0\<close> can never fail. The function returned is NaN at every point,
  so no bound \<open>|SDF(x\<^sub>1) - SDF(x\<^sub>2)| \<le> |x\<^sub>1 - x\<^sub>2|\<close> holds for it: there are no two values to
  compare.
\<close>

theorem createSdf_degenerate_ELH_is_NaN:
  "createSdf (createELHShape (Vector3 0 0 0) (Vector3 0 0 0) (Vector3 0 0 1) 1 1)
     = Inr (sdfElh (Vector3 0 0 0) (Vector3 0 0 0) (Vector3 0 0 1) 1 1)
   \<and> sdfElh (Vector3 0 0 0) (Vector3 0 0 0) (Vector3 0 0 1) 1 1 x = None
   \<and> \<not> (\<exists>a b. sdfElh (Vector3 0 0 0) (Vector3 0 0 0) (Vector3 0 0 1) 1 1 (Vector3 0 0 0) = Some a
               \<and> sdfElh (Vector3 0 0 0) (Vector3 0 0 0) (Vector3 0 0 1) 1 1 (Vector3 1 0 0) = Some b
               \<and> \<bar>a - b\<bar> \<le> distanceTo (Vector3 0 0 0) (Vector3 1 0 0))"
  by (simp add: createELHShape_def createSdfElh_def sdfElh_def vlength_def dot_def sub_def
        distanceTo_def)

section \<open>Rasterization\<close>

subsection \<open>The cells a traversal visits\<close>

lemma js_le_mono: "js_le v a \<Longrightarrow> a \<le> b \<Longrightarrow> js_le v b"
  by (cases v) (simp_all add: js_le_def)

lemma blocks_iff:
  "(bx, by, bz) \<in> set (blocks vg sdf offset) \<longleftrightarrow>
     bx < numX vg div blockSize + 1 \<and> by < numY vg div blockSize + 1 \<and> bz < numZ vg div blockSize + 1
     \<and> js_le (sdf (blockCenter vg bx by bz)) (blockOffset vg + offset)"
  by (auto simp: blocks_def Let_def simp del: upt_Suc)

lemma blockCells_iff:
  "(ix, iy, iz) \<in> set (blockCells vg sdf offset (bx, by, bz)) \<longleftrightarrow>
     ix < numX vg \<and> iy < numY vg \<and> iz < numZ vg
     \<and> ix div blockSize = bx \<and> iy div blockSize = by \<and> iz div blockSize = bz
     \<and> js_le (sdf (centerOf vg ix iy iz)) offset"
proof -
  have dec: "(\<exists>d < blockSize. i = b * blockSize + d) \<longleftrightarrow> i div blockSize = b" for i b :: nat
  proof
    assume "\<exists>d < blockSize. i = b * blockSize + d"
    then show "i div blockSize = b" by (auto simp: blockSize_def)
  next
    assume "i div blockSize = b"
    then have "i mod blockSize < blockSize \<and> i = b * blockSize + i mod blockSize"
      by (auto simp: blockSize_def)
    then show "\<exists>d < blockSize. i = b * blockSize + d" by blast
  qed
  have "(ix, iy, iz) \<in> set (blockCells vg sdf offset (bx, by, bz)) \<longleftrightarrow>
          (\<exists>d < blockSize. iz = bz * blockSize + d) \<and> iz < numZ vg
        \<and> (\<exists>d < blockSize. iy = by * blockSize + d) \<and> iy < numY vg
        \<and> (\<exists>d < blockSize. ix = bx * blockSize + d) \<and> ix < numX vg
        \<and> js_le (sdf (centerOf vg ix iy iz)) offset"
    by (auto simp: blockCells_def)
  then show ?thesis unfolding dec by blast
qed

lemma insideCells_iff:
  "(ix, iy, iz) \<in> set (insideCells vg sdf offset) \<longleftrightarrow>
     ix < numX vg \<and> iy < numY vg \<and> iz < numZ vg
     \<and> js_le (sdf (centerOf vg ix iy iz)) offset
     \<and> js_le (sdf (blockCenter vg (ix div blockSize) (iy div blockSize) (iz div blockSize)))
          (blockOffset vg + offset)"
proof -
  have lat: "i div blockSize < n div blockSize + 1" if "i < n" for i n :: nat
    using that by (simp add: blockSize_def div_le_mono less_Suc_eq_le)
  have "(ix, iy, iz) \<in> set (insideCells vg sdf offset) \<longleftrightarrow>
          (\<exists>bx by bz. (bx, by, bz) \<in> set (blocks vg sdf offset)
             \<and> (ix, iy, iz) \<in> set (blockCells vg sdf offset (bx, by, bz)))"
    by (auto simp: insideCells_def)
  also have "\<dots> \<longleftrightarrow> ix < numX vg \<and> iy < numY vg \<and> iz < numZ vg
     \<and> js_le (sdf (centerOf vg ix iy iz)) offset
     \<and> js_le (sdf (blockCenter vg (ix div blockSize) (iy div blockSize) (iz div blockSize)))
          (blockOffset vg + offset)"
    unfolding blocks_iff blockCells_iff using lat by auto
  finally show ?thesis .
qed

lemma insideCells_mono:
  assumes "o1 \<le> o2"
  shows "set (insideCells vg sdf o1) \<subseteq> set (insideCells vg sdf o2)"
proof
  fix c assume c: "c \<in> set (insideCells vg sdf o1)"
  obtain ix iy iz where [simp]: "c = (ix, iy, iz)" by (cases c) auto
  from c assms show "c \<in> set (insideCells vg sdf o2)"
    by (auto simp: insideCells_iff intro: js_le_mono)
qed

lemma visit_logging_all:
  assumes "\<And>ix iy iz s. fst (fn ix iy iz s) = False"
  shows "snd (snd (visit (logging fn) cs (s, l))) = l @ cs"
proof (induction cs arbitrary: s l)
  case Nil
  show ?case by simp
next
  case (Cons c cs)
  obtain ix iy iz where c: "c = (ix, iy, iz)" by (cases c) auto
  obtain b s' where f: "fn ix iy iz s = (b, s')" by (cases "fn ix iy iz s") auto
  with assms [of ix iy iz s] have "b = False" by simp
  with c f Cons.IH [of s' "l @ [(ix, iy, iz)]"] show ?case
    by (simp add: logging_def)
qed

lemma calls_nonstop:
  assumes "\<And>ix iy iz s. fst (fn ix iy iz s) = False"
  shows "calls vg sdf offset fn s = insideCells vg sdf offset"
  unfolding calls_def traverseAllPointsInside_def
  using visit_logging_all [of fn "insideCells vg sdf offset" s "[]"] assms by simp

lemma cellsSet_eq:
  "cellsSet this shape val roundMode =
     (case createSdf shape of
        Inl e \<Rightarrow> {}
      | Inr sdf \<Rightarrow>
          if roundMode = ''outside'' then set (insideCells this sdf (res this * 0.5 * sqrt 3))
          else if roundMode = ''inside'' then set (insideCells this sdf (- (res this * 0.5 * sqrt 3)))
          else if roundMode = ''nearest'' then set (insideCells this sdf 0)
          else {})"
  by (simp add: cellsSet_def fillShapeCalls_def Let_def calls_nonstop split: sum.splits)

text \<open>
  C8. For every shape and every host grid (edge length \<open>res\<close> not negative, as the data
  model requires), the cells \<^verbatim>\<open>fillShape\<close> stores into with round mode \<open>inside\<close> are
  among those it stores into with \<open>nearest\<close>, and these are among those it stores into
  with \<open>outside\<close>. When the shape is rejected, no cell is stored in any mode.
\<close>

theorem fillShape_round_modes_nested:
  "0 \<le> res this \<Longrightarrow>
     cellsSet this shape val ''inside'' \<subseteq> cellsSet this shape val ''nearest''
   \<and> cellsSet this shape val ''nearest'' \<subseteq> cellsSet this shape val ''outside''"
proof -
  assume r: "0 \<le> res this"
  then have h: "0 \<le> res this * 0.5 * sqrt 3" by simp
  show ?thesis
  proof (cases "createSdf shape")
    case (Inl e)
    then show ?thesis by (simp add: cellsSet_eq)
  next
    case (Inr sdf)
    have "set (insideCells this sdf (- (res this * 0.5 * sqrt 3))) \<subseteq> set (insideCells this sdf 0)"
      using h by (intro insideCells_mono) linarith
    moreover have "set (insideCells this sdf 0) \<subseteq> set (insideCells this sdf (res this * 0.5 * sqrt 3))"
      using h by (intro insideCells_mono)
    ultimately show ?thesis using Inr by (simp add: cellsSet_eq)
  qed
qed


theorem fillShape_round_modes_nested_witness:
  "cellsSet (newVoxelGridCpu 1 1 1 1 (Vector3 0 0 0) (0::nat))
      (createBoxShape (Vector3 0.5 0.5 0.5) (Vector3 1 0 0) (Vector3 0 1 0) (Vector3 0 0 1)) 1 ''inside''
     \<subseteq> cellsSet (newVoxelGridCpu 1 1 1 1 (Vector3 0 0 0) (0::nat))
      (createBoxShape (Vector3 0.5 0.5 0.5) (Vector3 1 0 0) (Vector3 0 1 0) (Vector3 0 0 1)) 1 ''nearest''
   \<and> cellsSet (newVoxelGridCpu 1 1 1 1 (Vector3 0 0 0) (0::nat))
      (createBoxShape (Vector3 0.5 0.5 0.5) (Vector3 1 0 0) (Vector3 0 1 0) (Vector3 0 0 1)) 1 ''nearest''
     \<subseteq> cellsSet (newVoxelGridCpu 1 1 1 1 (Vector3 0 0 0) (0::nat))
      (createBoxShape (Vector3 0.5 0.5 0.5) (Vector3 1 0 0) (Vector3 0 1 0) (Vector3 0 0 1)) 1 ''outside''"
  using fillShape_round_modes_nested
    [of "newVoxelGridCpu 1 1 1 1 (Vector3 0 0 0) (0::nat)"
        "createBoxShape (Vector3 0.5 0.5 0.5) (Vector3 1 0 0) (Vector3 0 1 0) (Vector3 0 0 1)" 1]
  by (simp add: newVoxelGridCpu_def)

subsection \<open>Culling never skips a selected cell\<close>

lemma block_center_coord:
  fixes i :: nat and r c :: real
  assumes "0 \<le> r"
  shows "\<bar>((real (i div blockSize) + 0.5) * (real blockSize * r) + c) - ((real i + 0.5) * r + c)\<bar>
           \<le> 3.5 * r"
proof -
  have e: "8 * (i div 8) + i mod 8 = i" by simp
  have "real i = real (8 * (i div 8) + i mod 8)" unfolding e ..
  also have "\<dots> = 8 * real (i div 8) + real (i mod 8)"
    by (simp only: of_nat_add of_nat_mult of_nat_numeral)
  finally have i: "real i = 8 * real (i div blockSize) + real (i mod blockSize)"
    by (simp add: blockSize_def)
  have "i mod blockSize < 8" by (simp add: blockSize_def)
  then have m: "0 \<le> real (i mod blockSize)" "real (i mod blockSize) \<le> 7" by simp_all
  have "((real (i div blockSize) + 0.5) * (real blockSize * r) + c) - ((real i + 0.5) * r + c)
          = (3.5 - real (i mod blockSize)) * r"
    unfolding i by (simp add: blockSize_def algebra_simps)
  moreover have "\<bar>(3.5 - real (i mod blockSize)) * r\<bar> = \<bar>3.5 - real (i mod blockSize)\<bar> * r"
    using assms by (simp add: abs_mult)
  moreover have "\<bar>3.5 - real (i mod blockSize)\<bar> * r \<le> 3.5 * r"
  proof (rule mult_right_mono [OF _ assms])
    show "\<bar>3.5 - real (i mod blockSize)\<bar> \<le> 3.5" using m by linarith
  qed
  ultimately show ?thesis by simp
qed

lemma block_center_near:
  assumes "0 \<le> res vg"
  shows "distanceTo (blockCenter vg (ix div blockSize) (iy div blockSize) (iz div blockSize))
           (centerOf vg ix iy iz) \<le> blockOffset vg"
proof -
  let ?r = "res vg"
  have "distanceTo (blockCenter vg (ix div blockSize) (iy div blockSize) (iz div blockSize))
           (centerOf vg ix iy iz)
        = sqrt ((((real (ix div blockSize) + 0.5) * (real blockSize * ?r) + vec_x (ofs vg))
                  - ((real ix + 0.5) * ?r + vec_x (ofs vg)))\<^sup>2
              + (((real (iy div blockSize) + 0.5) * (real blockSize * ?r) + vec_y (ofs vg))
                  - ((real iy + 0.5) * ?r + vec_y (ofs vg)))\<^sup>2
              + (((real (iz div blockSize) + 0.5) * (real blockSize * ?r) + vec_z (ofs vg))
                  - ((real iz + 0.5) * ?r + vec_z (ofs vg)))\<^sup>2)"
    by (simp add: distanceTo_def blockCenter_def centerOf_def add_def multiplyScalar_def
          addScalar_def power2_eq_square)
  also have "\<dots> \<le> sqrt ((3.5 * ?r)\<^sup>2 + (3.5 * ?r)\<^sup>2 + (3.5 * ?r)\<^sup>2)"
  proof (rule sqrt3_mono)
    have "\<bar>3.5 * ?r\<bar> = 3.5 * ?r" using assms by simp
    then show
      "\<bar>((real (ix div blockSize) + 0.5) * (real blockSize * ?r) + vec_x (ofs vg))
          - ((real ix + 0.5) * ?r + vec_x (ofs vg))\<bar> \<le> \<bar>3.5 * ?r\<bar>"
      "\<bar>((real (iy div blockSize) + 0.5) * (real blockSize * ?r) + vec_y (ofs vg))
          - ((real iy + 0.5) * ?r + vec_y (ofs vg))\<bar> \<le> \<bar>3.5 * ?r\<bar>"
      "\<bar>((real (iz div blockSize) + 0.5) * (real blockSize * ?r) + vec_z (ofs vg))
          - ((real iz + 0.5) * ?r + vec_z (ofs vg))\<bar> \<le> \<bar>3.5 * ?r\<bar>"
      using block_center_coord [OF assms] by simp_all
  qed
  also have "(3.5 * ?r)\<^sup>2 + (3.5 * ?r)\<^sup>2 + (3.5 * ?r)\<^sup>2 = 3 * (3.5 * ?r)\<^sup>2" by simp
  also have "sqrt (3 * (3.5 * ?r)\<^sup>2) = sqrt 3 * (3.5 * ?r)"
    using assms by (simp add: real_sqrt_mult)
  also have "\<dots> \<le> sqrt 3 * (4 * ?r)"
    using assms by (intro mult_left_mono) simp_all
  also have "\<dots> = blockOffset vg" by (simp add: blockOffset_def blockSize_def)
  finally show ?thesis .
qed

lemma culling_sound:
  assumes r: "0 \<le> res vg" and sdf: "createSdf shape = Inr sdf"
      and sel: "js_le (sdf (centerOf vg ix iy iz)) offset"
  shows "js_le (sdf (blockCenter vg (ix div blockSize) (iy div blockSize) (iz div blockSize)))
           (blockOffset vg + offset)"
proof -
  let ?b = "blockCenter vg (ix div blockSize) (iy div blockSize) (iz div blockSize)"
  let ?c = "centerOf vg ix iy iz"
  from sel have c: "sdf ?c \<noteq> None" by (cases "sdf ?c") (simp_all add: js_le_def)
  have "\<forall>x y. \<exists>a b. sdf x = Some a \<and> sdf y = Some b \<and> a \<le> b + distanceTo x y"
  proof (rule disjE [OF createSdf_lipschitz [OF sdf]])
    assume "\<forall>x. sdf x = None"
    then have "sdf ?c = None" by (rule spec)
    with c show ?thesis by simp
  qed
  then have "\<exists>a b. sdf ?b = Some a \<and> sdf ?c = Some b \<and> a \<le> b + distanceTo ?b ?c"
    by (elim allE)
  then obtain a b where ab: "sdf ?b = Some a" "sdf ?c = Some b" "a \<le> b + distanceTo ?b ?c"
    by (elim exE conjE)
  from sel ab have "b \<le> offset" by (simp add: js_le_def)
  with ab block_center_near [OF r, of ix iy iz] show ?thesis by (simp add: js_le_def)
qed

lemma insideCells_selected:
  assumes "0 \<le> res vg" and "createSdf shape = Inr sdf"
  shows "(ix, iy, iz) \<in> set (insideCells vg sdf offset) \<longleftrightarrow>
           ix < numX vg \<and> iy < numY vg \<and> iz < numZ vg \<and> js_le (sdf (centerOf vg ix iy iz)) offset"
  unfolding insideCells_iff using culling_sound [OF assms] by blast

subsection \<open>What the visitor of fillShape stores\<close>

lemma visit_setter:
  "visit (\<lambda>ix iy iz g. (False, set_cell g ix iy iz val)) cs g =
     (False, g\<lparr>data := fold (\<lambda>c d. d[fst c + fst (snd c) * numX g + snd (snd c) * numX g * numY g := val])
                           cs (data g)\<rparr>)"
proof (induction cs arbitrary: g)
  case Nil
  show ?case by simp
next
  case (Cons c cs)
  obtain ix iy iz where c: "c = (ix, iy, iz)" by (cases c) auto
  let ?F = "\<lambda>ix iy iz g. (False, set_cell g ix iy iz val)"
  let ?g = "set_cell g ix iy iz val"
  have "visit ?F (c # cs) g = visit ?F cs ?g" by (simp add: c)
  also have "\<dots> = (False, ?g\<lparr>data := fold (\<lambda>c d. d[fst c + fst (snd c) * numX ?g
                           + snd (snd c) * numX ?g * numY ?g := val]) cs (data ?g)\<rparr>)"
    by (rule Cons.IH)
  also have "\<dots> = (False, g\<lparr>data := fold (\<lambda>c d. d[fst c + fst (snd c) * numX g
                           + snd (snd c) * numX g * numY g := val]) (c # cs) (data g)\<rparr>)"
    by (simp add: set_cell_def c)
  finally show ?case .
qed

lemma fold_update_length: "length (fold (\<lambda>c d. d[f c := v]) cs d) = length d"
  by (induction cs arbitrary: d) simp_all

lemma fold_update_nth:
  "i < length d \<Longrightarrow> fold (\<lambda>c d. d[f c := v]) cs d ! i = (if i \<in> f ` set cs then v else d ! i)"
proof (induction cs arbitrary: d)
  case Nil
  show ?case by simp
next
  case (Cons c cs)
  from Cons.prems have "i < length (d[f c := v])" by simp
  from Cons.IH [OF this] Cons.prems show ?case
    by (auto simp: nth_list_update)
qed

lemma index_bound:
  fixes ix iy iz nx ny nz :: nat
  assumes "ix < nx" "iy < ny" "iz < nz"
  shows "ix + iy * nx + iz * nx * ny < nx * ny * nz"
proof -
  have "ix + iy * nx < nx * ny"
  proof -
    have "ix + iy * nx < nx + iy * nx" using assms by simp
    also have "\<dots> = nx * Suc iy" by (simp add: algebra_simps)
    also have "\<dots> \<le> nx * ny" using assms by (intro mult_le_mono2) simp
    finally show ?thesis .
  qed
  then have "ix + iy * nx + iz * nx * ny < nx * ny + iz * (nx * ny)" by (simp add: algebra_simps)
  also have "\<dots> = (nx * ny) * Suc iz" by (simp add: algebra_simps)
  also have "\<dots> \<le> (nx * ny) * nz" using assms by (intro mult_le_mono2) simp
  finally show ?thesis .
qed

lemma index_inj:
  fixes ix iy iz jx jy jz nx ny :: nat
  assumes b: "ix < nx" "iy < ny" "jx < nx" "jy < ny"
      and e: "ix + iy * nx + iz * nx * ny = jx + jy * nx + jz * nx * ny"
  shows "ix = jx \<and> iy = jy \<and> iz = jz"
proof -
  have e': "ix + (iy + iz * ny) * nx = jx + (jy + jz * ny) * nx"
    using e by (simp add: algebra_simps)
  have "(ix + (iy + iz * ny) * nx) mod nx = ix" "(jx + (jy + jz * ny) * nx) mod nx = jx"
    using b by simp_all
  with e' have x: "ix = jx" by simp
  have "(ix + (iy + iz * ny) * nx) div nx = iy + iz * ny"
       "(jx + (jy + jz * ny) * nx) div nx = jy + jz * ny"
    using b by simp_all
  with e' have e2: "iy + iz * ny = jy + jz * ny" by simp
  have "(iy + iz * ny) mod ny = iy" "(jy + jz * ny) mod ny = jy" using b by simp_all
  with e2 have y: "iy = jy" by simp
  have "(iy + iz * ny) div ny = iz" "(jy + jz * ny) div ny = jz" using b by simp_all
  with e2 have "iz = jz" by simp
  with x y show ?thesis by simp
qed

lemma fillShape_cells:
  assumes r: "0 \<le> res this" and len: "length (data this) = numX this * numY this * numZ this"
      and sdf: "createSdf shape = Inr sdf"
      and b: "ix < numX this" "iy < numY this" "iz < numZ this"
  shows "get (snd (traverseAllPointsInside this sdf offset
                     (\<lambda>ix iy iz g. (False, set_cell g ix iy iz val)) this)) ix iy iz
           = (if js_le (sdf (centerOf this ix iy iz)) offset then Some val else get this ix iy iz)"
proof -
  let ?f = "\<lambda>c. fst c + fst (snd c) * numX this + snd (snd c) * numX this * numY this"
  let ?cs = "insideCells this sdf offset"
  let ?i = "ix + iy * numX this + iz * numX this * numY this"
  have i: "?i < length (data this)" unfolding len by (rule index_bound [OF b])
  have mem: "?i \<in> ?f ` set ?cs \<longleftrightarrow> js_le (sdf (centerOf this ix iy iz)) offset"
  proof
    assume "?i \<in> ?f ` set ?cs"
    then obtain jx jy jz where j: "(jx, jy, jz) \<in> set ?cs"
        and e: "ix + iy * numX this + iz * numX this * numY this
                  = jx + jy * numX this + jz * numX this * numY this"
      by auto
    from j have jb: "jx < numX this" "jy < numY this"
        and sel: "js_le (sdf (centerOf this jx jy jz)) offset"
      by (simp_all add: insideCells_iff)
    from index_inj [OF b(1,2) jb e] sel show "js_le (sdf (centerOf this ix iy iz)) offset" by simp
  next
    assume "js_le (sdf (centerOf this ix iy iz)) offset"
    with b have "(ix, iy, iz) \<in> set ?cs" by (simp add: insideCells_selected [OF r sdf])
    then have "?f (ix, iy, iz) \<in> ?f ` set ?cs" by (rule imageI)
    then show "?i \<in> ?f ` set ?cs" by simp
  qed
  show ?thesis
    unfolding traverseAllPointsInside_def visit_setter
    using i fold_update_nth [of ?i "data this" ?f val ?cs] mem
    by (simp add: get_def Let_def fold_update_length)
qed

text \<open>
  C1. For a host grid (edge length not negative, buffer of \<open>numX * numY * numZ\<close> cells)
  and a shape whose distance function \<^verbatim>\<open>createSdf\<close> returns, \<^verbatim>\<open>fillShape\<close> with round
  mode \<open>outside\<close>, \<open>inside\<close> or \<open>nearest\<close> returns the grid in which a cell holds
  \<open>val\<close> exactly when the distance function at its center is at most the offset
  (\<open>res * sqrt 3 / 2\<close>, its negation, or 0; a NaN distance compares false), and its
  previous value otherwise; the metadata is unchanged. In particular block culling skips
  no such cell. With any other round mode the call throws, whatever the shape.
\<close>

theorem fillShape_selects_by_center:
  "(0 \<le> res this \<and> length (data this) = numX this * numY this * numZ this
      \<and> createSdf shape = Inr sdf
      \<and> (roundMode = ''outside'' \<or> roundMode = ''inside'' \<or> roundMode = ''nearest'')
    \<longrightarrow> (\<exists>g. fillShape this shape val roundMode = Inr g
           \<and> res g = res this \<and> numX g = numX this \<and> numY g = numY this \<and> numZ g = numZ this
           \<and> ofs g = ofs this \<and> length (data g) = length (data this)
           \<and> (\<forall>ix iy iz. ix < numX this \<and> iy < numY this \<and> iz < numZ this \<longrightarrow>
                 get g ix iy iz =
                   (if js_le (sdf (centerOf this ix iy iz))
                         (if roundMode = ''outside'' then res this * sqrt 3 / 2
                          else if roundMode = ''inside'' then - (res this * sqrt 3 / 2)
                          else 0)
                    then Some val else get this ix iy iz))))
   \<and> (roundMode \<noteq> ''outside'' \<and> roundMode \<noteq> ''inside'' \<and> roundMode \<noteq> ''nearest''
        \<longrightarrow> (\<exists>e. fillShape this shape val roundMode = Inl e))"
proof (intro conjI impI)
  assume "roundMode \<noteq> ''outside'' \<and> roundMode \<noteq> ''inside'' \<and> roundMode \<noteq> ''nearest''"
  then show "\<exists>e. fillShape this shape val roundMode = Inl e"
    by (cases "createSdf shape") (simp_all add: fillShape_def)
next
  assume a: "0 \<le> res this \<and> length (data this) = numX this * numY this * numZ this
      \<and> createSdf shape = Inr sdf
      \<and> (roundMode = ''outside'' \<or> roundMode = ''inside'' \<or> roundMode = ''nearest'')"
  define offset where "offset = (if roundMode = ''outside'' then res this * sqrt 3 / 2
                          else if roundMode = ''inside'' then - (res this * sqrt 3 / 2)
                          else 0)"
  define g where "g = snd (traverseAllPointsInside this sdf offset
                     (\<lambda>ix iy iz g. (False, set_cell g ix iy iz val)) this)"
  have fs: "fillShape this shape val roundMode = Inr g"
    using a by (auto simp: fillShape_def g_def offset_def)
  have meta: "res g = res this \<and> numX g = numX this \<and> numY g = numY this \<and> numZ g = numZ this
           \<and> ofs g = ofs this \<and> length (data g) = length (data this)"
    unfolding g_def traverseAllPointsInside_def visit_setter by (simp add: fold_update_length)
  have cells: "get g ix iy iz
                 = (if js_le (sdf (centerOf this ix iy iz)) offset then Some val else get this ix iy iz)"
    if "ix < numX this \<and> iy < numY this \<and> iz < numZ this" for ix iy iz
    unfolding g_def using a that fillShape_cells [of this shape sdf ix iy iz offset val] by simp
  show "\<exists>g. fillShape this shape val roundMode = Inr g
           \<and> res g = res this \<and> numX g = numX this \<and> numY g = numY this \<and> numZ g = numZ this
           \<and> ofs g = ofs this \<and> length (data g) = length (data this)
           \<and> (\<forall>ix iy iz. ix < numX this \<and> iy < numY this \<and> iz < numZ this \<longrightarrow>
                 get g ix iy iz =
                   (if js_le (sdf (centerOf this ix iy iz))
                         (if roundMode = ''outside'' then res this * sqrt 3 / 2
                          else if roundMode = ''inside'' then - (res this * sqrt 3 / 2)
                          else 0)
                    then Some val else get this ix iy iz))"
    using fs meta cells unfolding offset_def by blast
qed

theorem fillShape_selects_by_center_witness:
  "(\<exists>g. fillShape (newVoxelGridCpu 1 1 1 1 (Vector3 0 0 0) (0::nat))
            (createBoxShape (Vector3 0.5 0.5 0.5) (Vector3 1 0 0) (Vector3 0 1 0) (Vector3 0 0 1))
            1 ''nearest'' = Inr g
        \<and> get g 0 0 0 = Some 1)
   \<and> (\<exists>e. fillShape (newVoxelGridCpu 1 1 1 1 (Vector3 0 0 0) (0::nat))
            (createBoxShape (Vector3 0.5 0.5 0.5) (Vector3 1 0 0) (Vector3 0 1 0) (Vector3 0 0 1))
            1 ''up'' = Inl e)"
proof -
  let ?G = "newVoxelGridCpu 1 1 1 1 (Vector3 0 0 0) (0::nat)"
  let ?S = "createBoxShape (Vector3 0.5 0.5 0.5) (Vector3 1 0 0) (Vector3 0 1 0) (Vector3 0 0 1)"
  let ?sdf = "\<lambda>p. Some (sdfBox (Vector3 0.5 0.5 0.5) (Vector3 1 0 0) (Vector3 0 1 0) (Vector3 0 0 1) p)"
  have h: "0 \<le> res ?G \<and> length (data ?G) = numX ?G * numY ?G * numZ ?G
      \<and> createSdf ?S = Inr ?sdf
      \<and> (''nearest'' = ''outside'' \<or> ''nearest'' = ''inside'' \<or> ''nearest'' = ''nearest'')"
    by (simp add: newVoxelGridCpu_def createBoxShape_def createSdfBox_def dot_def)
  have c: "js_le (?sdf (centerOf ?G 0 0 0)) 0"
    by (simp add: js_le_def sdfBox_def newVoxelGridCpu_def centerOf_def add_def multiplyScalar_def
          addScalar_def sub_def dot_def normalize_def vlength_def Let_def)
  from fillShape_selects_by_center [of ?G ?S ?sdf "''nearest''" 1, THEN conjunct1, rule_format, OF h]
  obtain g where g: "fillShape ?G ?S 1 ''nearest'' = Inr g"
    and cells: "\<forall>ix iy iz. ix < numX ?G \<and> iy < numY ?G \<and> iz < numZ ?G \<longrightarrow>
                 get g ix iy iz = (if js_le (?sdf (centerOf ?G ix iy iz)) 0 then Some 1
                                   else get ?G ix iy iz)"
    by auto
  from cells [rule_format, of 0 0 0] c have "get g 0 0 0 = Some 1"
    by (simp add: newVoxelGridCpu_def)
  moreover have "\<exists>e. fillShape ?G ?S 1 ''up'' = Inl e"
    using fillShape_selects_by_center [of ?G ?S ?sdf "''up''" 1] by simp
  ultimately show ?thesis using g by blast
qed


section \<open>The kernel dispatcher\<close>

subsection \<open>Grid compatibility\<close>

lemma checkGridCompat_differ:
  assumes "(res a, numX a, numY a, numZ a, ofs a) \<noteq> (res b, numX b, numY b, numZ b, ofs b)"
  shows "\<exists>e. checkGridCompat a (b # gs) = Inl e
           \<and> (e = GridSizeMismatch \<or> e = GridOffsetMismatch \<or> e = GridResolutionMismatch)"
  using assms by (auto simp: Vector3.expand)

lemma checkGridCompat_cases:
  "(\<exists>e. checkGridCompat a gs = Inl e
           \<and> (e = GridSizeMismatch \<or> e = GridOffsetMismatch \<or> e = GridResolutionMismatch))
   \<or> (\<exists>g. checkGridCompat a gs = Inr g)"
  by (induction gs) auto

lemma checkGridCompat_second:
  assumes "(res a, numX a, numY a, numZ a, ofs a) \<noteq> (res c, numX c, numY c, numZ c, ofs c)"
  shows "\<exists>e. checkGridCompat a [b, c] = Inl e
           \<and> (e = GridSizeMismatch \<or> e = GridOffsetMismatch \<or> e = GridResolutionMismatch)"
  using assms by (auto simp: Vector3.expand)

text \<open>
  C9. If the two grids passed to \<^verbatim>\<open>map\<close>, or any two of the three grids passed to
  \<^verbatim>\<open>map2\<close>, differ in \<open>res\<close>, \<open>numX\<close>, \<open>numY\<close>, \<open>numZ\<close> or \<open>ofs\<close>, the call throws
  a grid mismatch error (size, offset or resolution) and leaves the dispatcher, the
  contents of every buffer included, as it was: the check comes before the kernel lookup,
  every allocation and the dispatch.
\<close>

theorem map_rejects_mismatched_grids:
  "((res a, numX a, numY a, numZ a, ofs a) \<noteq> (res b, numX b, numY b, numZ b, ofs b)
      \<longrightarrow> (\<exists>e. map_grid K fnName a b = (Inl e, K)
             \<and> (e = GridSizeMismatch \<or> e = GridOffsetMismatch \<or> e = GridResolutionMismatch)))
   \<and> ((res a, numX a, numY a, numZ a, ofs a) \<noteq> (res b, numX b, numY b, numZ b, ofs b)
       \<or> (res a, numX a, numY a, numZ a, ofs a) \<noteq> (res c, numX c, numY c, numZ c, ofs c)
       \<or> (res b, numX b, numY b, numZ b, ofs b) \<noteq> (res c, numX c, numY c, numZ c, ofs c)
      \<longrightarrow> (\<exists>e. map2_grid K fnName2 a b c = (Inl e, K)
             \<and> (e = GridSizeMismatch \<or> e = GridOffsetMismatch \<or> e = GridResolutionMismatch)))"
proof (intro conjI impI)
  assume "(res a, numX a, numY a, numZ a, ofs a) \<noteq> (res b, numX b, numY b, numZ b, ofs b)"
  from checkGridCompat_differ [OF this, of "[]"]
  show "\<exists>e. map_grid K fnName a b = (Inl e, K)
             \<and> (e = GridSizeMismatch \<or> e = GridOffsetMismatch \<or> e = GridResolutionMismatch)"
    by (auto simp: map_grid_def)
next
  assume d: "(res a, numX a, numY a, numZ a, ofs a) \<noteq> (res b, numX b, numY b, numZ b, ofs b)
       \<or> (res a, numX a, numY a, numZ a, ofs a) \<noteq> (res c, numX c, numY c, numZ c, ofs c)
       \<or> (res b, numX b, numY b, numZ b, ofs b) \<noteq> (res c, numX c, numY c, numZ c, ofs c)"
  have "\<exists>e. checkGridCompat a [b, c] = Inl e
           \<and> (e = GridSizeMismatch \<or> e = GridOffsetMismatch \<or> e = GridResolutionMismatch)"
  proof (cases "(res a, numX a, numY a, numZ a, ofs a) = (res b, numX b, numY b, numZ b, ofs b)")
    case False
    then show ?thesis by (rule checkGridCompat_differ)
  next
    case True
    with d have "(res a, numX a, numY a, numZ a, ofs a) \<noteq> (res c, numX c, numY c, numZ c, ofs c)"
      by auto
    then show ?thesis by (rule checkGridCompat_second)
  qed
  then show "\<exists>e. map2_grid K fnName2 a b c = (Inl e, K)
             \<and> (e = GridSizeMismatch \<or> e = GridOffsetMismatch \<or> e = GridResolutionMismatch)"
    by (auto simp: map2_grid_def)
qed

theorem map_rejects_mismatched_grids_witness:
  "map_grid newGpuKernels ''df_init''
      \<lparr>res = 1, numX = 2, numY = 1, numZ = 1, ofs = Vector3 0 0 0, type = U32, buffer = Some 0\<rparr>
      \<lparr>res = 1, numX = 1, numY = 1, numZ = 1, ofs = Vector3 0 0 0, type = Vec4F, buffer = Some 1\<rparr>
     = (Inl GridSizeMismatch, newGpuKernels)
   \<and> (\<exists>e. map2_grid newGpuKernels ''and''
      \<lparr>res = 1, numX = 1, numY = 1, numZ = 1, ofs = Vector3 0 0 0, type = U32, buffer = Some 0\<rparr>
      \<lparr>res = 1, numX = 1, numY = 1, numZ = 1, ofs = Vector3 0 0 0, type = U32, buffer = Some 1\<rparr>
      \<lparr>res = 2, numX = 1, numY = 1, numZ = 1, ofs = Vector3 0 0 0, type = U32, buffer = Some 2\<rparr>
     = (Inl e, newGpuKernels))"
  using map_rejects_mismatched_grids
    [of "\<lparr>res = 1, numX = 2, numY = 1, numZ = 1, ofs = Vector3 0 0 0, type = U32, buffer = Some 0\<rparr>"
        "\<lparr>res = 1, numX = 1, numY = 1, numZ = 1, ofs = Vector3 0 0 0, type = Vec4F, buffer = Some 1\<rparr>"
        newGpuKernels "''df_init''"
        "\<lparr>res = 2, numX = 1, numY = 1, numZ = 1, ofs = Vector3 0 0 0, type = U32, buffer = Some 2\<rparr>"
        "''and''"]
    map_rejects_mismatched_grids
    [of "\<lparr>res = 1, numX = 1, numY = 1, numZ = 1, ofs = Vector3 0 0 0, type = U32, buffer = Some 0\<rparr>"
        "\<lparr>res = 1, numX = 1, numY = 1, numZ = 1, ofs = Vector3 0 0 0, type = U32, buffer = Some 1\<rparr>"
        newGpuKernels "''df_init''"
        "\<lparr>res = 2, numX = 1, numY = 1, numZ = 1, ofs = Vector3 0 0 0, type = U32, buffer = Some 2\<rparr>"
        "''and''"]
  by (auto simp: map_grid_def)

subsection \<open>reduce and boundOfAxis\<close>

text \<open>
  C6. Claimed: \<^verbatim>\<open>reduce\<close> returns the fold of the registered operator over the cells
  of the grid. The code returns no value for any input: an unregistered name throws, and
  for a registered one the initializer of the first uniform buffer reads the undeclared
  variable \<^verbatim>\<open>grid\<close>, which throws before any kernel is dispatched.
\<close>

theorem reduce_always_throws:
  "fst (reduce K fnName inBuf) =
     (case reducePipelines K fnName of
        None \<Rightarrow> Inl (ReduceFnNotRegistered fnName)
      | Some pl \<Rightarrow> Inl (ReferenceError ''grid''))"
  by (simp add: reduce_def split: option.splits prod.splits)

text \<open>
  C3. Claimed: \<^verbatim>\<open>boundOfAxis\<close> returns the least and greatest projection of the
  occupied cell centers on \<open>dir\<close>, moved by the boundary offset, for instance
  \<open>{min: 3.5, max: 3.5}\<close> when only cell (3,5,2) is occupied. The code awaits
  \<^verbatim>\<open>reduce("min_ignore_invalid", inBuf)\<close> first, which throws: on the dispatcher as
  constructed, whatever its buffers, the grid, \<open>dir\<close> and \<open>boundary\<close>, the call throws.
\<close>

theorem boundOfAxis_throws:
  "fst (boundOfAxis (newGpuKernels\<lparr>buffers := m, nextBuffer := n\<rparr>) dir inBuf boundary)
     = Inl (ReferenceError ''grid'')"
  by (simp add: boundOfAxis_def reduce_def newGpuKernels_def split: prod.splits)

subsection \<open>What a dispatched map kernel writes\<close>

lemma fold_mapPipeline:
  assumes "bi \<noteq> bo" "mem bi = Some vin" "mem bo = Some vout" "length vout = length vin"
  shows "fold (mapPipeline snippet [bi, bo] nums ofs_res) [0..<T] mem =
           mem(bo \<mapsto> map (\<lambda>i. snippet (cell_center ofs_res (decompose_ix nums i)) (vin ! i))
                          [0..<min T (length vin)] @ drop (min T (length vin)) vout)"
proof (induction T)
  case 0
  show ?case using assms by (simp add: fun_upd_idem)
next
  case (Suc T)
  let ?f = "\<lambda>i. snippet (cell_center ofs_res (decompose_ix nums i)) (vin ! i)"
  let ?out = "map ?f [0..<min T (length vin)] @ drop (min T (length vin)) vout"
  let ?mem = "mem(bo \<mapsto> ?out)"
  have "[0..<Suc T] = [0..<T] @ [T]" by simp
  then have "fold (mapPipeline snippet [bi, bo] nums ofs_res) [0..<Suc T] mem
                = mapPipeline snippet [bi, bo] nums ofs_res T
                    (fold (mapPipeline snippet [bi, bo] nums ofs_res) [0..<T] mem)"
    by (simp only: fold_append fold.simps comp_apply id_apply)
  then have step: "fold (mapPipeline snippet [bi, bo] nums ofs_res) [0..<Suc T] mem
                = mapPipeline snippet [bi, bo] nums ofs_res T ?mem"
    by (simp only: Suc.IH)
  show ?case
  proof (cases "T < length vin")
    case False
    then have m: "min T (length vin) = length vin" "min (Suc T) (length vin) = length vin"
      by simp_all
    have "?mem bi = Some vin" "?mem bo = Some ?out" using assms by simp_all
    then have "mapPipeline snippet [bi, bo] nums ofs_res T ?mem = ?mem"
      using False by (simp add: mapPipeline_def)
    then show ?thesis unfolding step by (simp only: m)
  next
    case True
    then have m: "min T (length vin) = T" "min (Suc T) (length vin) = Suc T" by simp_all
    have "?out[T := ?f T] = map ?f [0..<Suc T] @ drop (Suc T) vout"
      using True assms(4) unfolding m
      by (simp add: list_update_append Cons_nth_drop_Suc [symmetric])
    moreover have "?mem bi = Some vin" "?mem bo = Some ?out" using assms by simp_all
    ultimately have "mapPipeline snippet [bi, bo] nums ofs_res T ?mem
                       = ?mem(bo \<mapsto> map ?f [0..<Suc T] @ drop (Suc T) vout)"
      using True by (simp add: mapPipeline_def Let_def m)
    then show ?thesis unfolding step by (simp only: m fun_upd_upd)
  qed
qed

lemma dispatch_mapPipeline:
  assumes "bi \<noteq> bo" "buffers K bi = Some vin" "buffers K bo = Some vout"
      and "length vout = length vin" "length vin \<le> ((n + 127) div 128) * 128"
      and "buffers K nb = Some nums" "buffers K ob = Some ofs_res"
  shows "dispatchKernel K inOrder (mapPipeline snippet) [Some bi, Some bo] n nb ob =
           Inr (K\<lparr>buffers := (buffers K)(bo \<mapsto>
                  map (\<lambda>i. snippet (cell_center (vec4f_of ofs_res) (decompose_ix (vec4u_of nums) i))
                                (vin ! i)) [0..<length vin])\<rparr>)"
  using assms
  by (simp add: dispatchKernel_def inOrder_def fold_mapPipeline [OF assms(1-4)] min_def)


text \<open>
  C4. Claimed: \<^verbatim>\<open>map(name, g, g)\<close> leaves \<open>g\<close> holding what the same map writes
  out of place, and the temporary is destroyed. The code tests \<^verbatim>\<open>inBuf === outBuf\<close>
  after \<open>outBuf\<close> has been set to the temporary, so neither the copy back nor the
  release runs. With the map \<open>negate\<close> registered and a one-cell grid holding 2, the call
  returns normally, the grid (buffer 0) still holds 2, and the result -2 is in the
  temporary (buffer 1), which stays allocated.
\<close>

theorem map_in_place_never_copies_back:
  "(let K = newGpuKernels\<lparr>buffers := [0 \<mapsto> [CF32 2]], nextBuffer := 1,
              mapPipelines := (mapPipelines newGpuKernels)
                 (''negate'' \<mapsto> mapPipeline (\<lambda>p vi. CF32 (- f32_of vi)))\<rparr>;
        g = \<lparr>res = 1, numX = 1, numY = 1, numZ = 1, ofs = Vector3 0 0 0, type = F32, buffer = Some 0\<rparr>;
        r = map_grid K ''negate'' g g
    in fst r = Inr () \<and> buffers (snd r) 0 = Some [CF32 2] \<and> buffers (snd r) 1 = Some [CF32 (- 2)])"
  by (simp add: Let_def map_grid_def createLike_def newVoxelGridGpu_def allocBuffer_def
        createUniformBuffer_def sameObject_def numsOf_def ofsResOf_def destroyBuffer_def
        newGpuKernels_def dispatch_mapPipeline)

lemma cell_center_is_corner:
  "cell_center (ofs vg, res vg) (ix, iy, iz)
     = sub (centerOf vg ix iy iz) (Vector3 (res vg / 2) (res vg / 2) (res vg / 2))"
  by (simp add: cell_center_def centerOf_def sub_def add_def multiplyScalar_def addScalar_def
        algebra_simps)

text \<open>
  C5. Claimed: the point \<open>p\<close> bound in a map kernel for cell \<open>i\<close> is the cell center
  \<open>ofs + (decompose(i) + 0.5) * res\<close>, the point \<^verbatim>\<open>centerOf\<close> of the host grid returns.
  The code's \<^verbatim>\<open>cell_center\<close> computes \<open>ofs + decompose(i) * res\<close>, the lower corner of
  the cell, half a cell away from the center on every axis. On a grid of 2 x 1 x 1 cells with \<open>res = 1\<close> at the origin, the map
  \<open>df_init\<close>, which stores \<open>p\<close>, writes (0,0,0) and (1,0,0), while the host centers are
  (0.5,0.5,0.5) and (1.5,0.5,0.5).
\<close>

theorem map_binds_cell_corner:
  "(let K = newGpuKernels\<lparr>buffers := [0 \<mapsto> [CU32 1, CU32 1],
                                        1 \<mapsto> [CVec4 (Vector3 0 0 0) 0, CVec4 (Vector3 0 0 0) 0]],
                            nextBuffer := 2\<rparr>;
        g = \<lparr>res = 1, numX = 2, numY = 1, numZ = 1, ofs = Vector3 0 0 0, type = U32, buffer = Some 0\<rparr>;
        df = \<lparr>res = 1, numX = 2, numY = 1, numZ = 1, ofs = Vector3 0 0 0, type = Vec4F, buffer = Some 1\<rparr>;
        r = map_grid K ''df_init'' g df
    in fst r = Inr ()
       \<and> buffers (snd r) 1 = Some [CVec4 (Vector3 0 0 0) 0, CVec4 (Vector3 1 0 0) 0]
       \<and> centerOf g 0 0 0 = Vector3 0.5 0.5 0.5
       \<and> centerOf g 1 0 0 = Vector3 1.5 0.5 0.5)"
  by (simp add: Let_def map_grid_def createLike_def newVoxelGridGpu_def allocBuffer_def
        createUniformBuffer_def sameObject_def numsOf_def ofsResOf_def destroyBuffer_def
        newGpuKernels_def dispatch_mapPipeline df_init_def cell_center_def decompose_ix_def
        centerOf_def add_def multiplyScalar_def addScalar_def)


subsection \<open>What a dispatched jump-flood pass writes\<close>

lemma jump_flood_length: "length (jump_flood nums ofs_res i df) = length df"
  by (simp add: jump_flood_def Let_def)

lemma jump_flood_idle: "length df \<le> i \<Longrightarrow> jump_flood nums ofs_res i df = df"
  by (simp add: jump_flood_def)

lemma fold_jump_flood_length: "length (fold (jump_flood nums ofs_res) ids df) = length df"
  by (induction ids arbitrary: df) (simp_all add: jump_flood_length)

lemma fold_jump_flood_idle:
  "length df \<le> lo \<Longrightarrow> fold (jump_flood nums ofs_res) [lo..<hi] df = df"
  by (induction hi) (simp_all add: jump_flood_idle)

lemma fold_jumpFloodPipeline:
  "mem b = Some df \<Longrightarrow>
     fold (jumpFloodPipeline [b] nums ofs_res) ids mem = mem(b \<mapsto> fold (jump_flood nums ofs_res) ids df)"
proof (induction ids arbitrary: mem df)
  case Nil
  then show ?case by (simp add: fun_upd_idem)
next
  case (Cons i ids)
  let ?m = "mem(b \<mapsto> jump_flood nums ofs_res i df)"
  have e1: "jumpFloodPipeline [b] nums ofs_res i mem = ?m"
    using Cons.prems by (simp add: jumpFloodPipeline_def)
  have e2: "fold (jumpFloodPipeline [b] nums ofs_res) ids ?m
              = ?m(b \<mapsto> fold (jump_flood nums ofs_res) ids (jump_flood nums ofs_res i df))"
    by (rule Cons.IH) simp
  have "fold (jumpFloodPipeline [b] nums ofs_res) (i # ids) mem
          = fold (jumpFloodPipeline [b] nums ofs_res) ids (jumpFloodPipeline [b] nums ofs_res i mem)"
    by (simp only: fold.simps comp_apply)
  also have "\<dots> = mem(b \<mapsto> fold (jump_flood nums ofs_res) ids (jump_flood nums ofs_res i df))"
    by (simp only: e1 e2 fun_upd_upd)
  also have "fold (jump_flood nums ofs_res) ids (jump_flood nums ofs_res i df)
               = fold (jump_flood nums ofs_res) (i # ids) df"
    by (simp only: fold.simps comp_apply)
  finally show ?case .
qed

lemma dispatch_jumpFlood:
  assumes "buffers K b = Some df" "length df \<le> ((n + 127) div 128) * 128"
      and "buffers K nb = Some nums" "buffers K ob = Some ofs_res"
  shows "dispatchKernel K inOrder jumpFloodPipeline [Some b] n nb ob =
           Inr (K\<lparr>buffers := (buffers K)(b \<mapsto>
                  fold (jump_flood (vec4u_of nums) (vec4f_of ofs_res)) [0..<length df] df)\<rparr>)"
proof -
  let ?T = "((n + 127) div 128) * 128"
  let ?f = "jump_flood (vec4u_of nums) (vec4f_of ofs_res)"
  have "[0..<?T] = [0..<length df] @ [length df..<?T]"
    using assms(2) by (metis le_add_diff_inverse upt_add_eq_append zero_le)
  then have "fold ?f [0..<?T] df = fold ?f [length df..<?T] (fold ?f [0..<length df] df)"
    by (simp only: fold_append comp_apply)
  also have "\<dots> = fold ?f [0..<length df] df"
    by (rule fold_jump_flood_idle) (simp add: fold_jump_flood_length)
  finally show ?thesis
    using assms by (simp add: dispatchKernel_def inOrder_def fold_jumpFloodPipeline)
qed

lemma ceil_log2_2: "ceil_log2 2 = 1"
  by simp

lemma jump_flood_2x2:
  "fold (jump_flood (2, 2, 1, 1) (Vector3 0 0 0, 1)) [0..<4]
     [CVec4 (Vector3 0 0 0) (- 1), CVec4 (Vector3 0 0 0) (- 1),
      CVec4 (Vector3 0 0 0) (- 1), CVec4 (Vector3 1 1 0) 0]
   = [CVec4 (Vector3 0 0 0) (- 1), CVec4 (Vector3 1 1 0) 1,
      CVec4 (Vector3 1 1 0) 1, CVec4 (Vector3 1 1 0) 0]"
proof -
  let ?N = "(2, 2, 1, 1) :: vec4u" and ?O = "(Vector3 0 0 0, 1) :: vec4f"
  let ?d0 = "[CVec4 (Vector3 0 0 0) (- 1), CVec4 (Vector3 0 0 0) (- 1),
              CVec4 (Vector3 0 0 0) (- 1), CVec4 (Vector3 1 1 0) 0]"
  let ?d1 = "[CVec4 (Vector3 0 0 0) (- 1), CVec4 (Vector3 1 1 0) 1,
              CVec4 (Vector3 0 0 0) (- 1), CVec4 (Vector3 1 1 0) 0]"
  let ?d2 = "[CVec4 (Vector3 0 0 0) (- 1), CVec4 (Vector3 1 1 0) 1,
              CVec4 (Vector3 1 1 0) 1, CVec4 (Vector3 1 1 0) 0]"
  have u4: "[0..<4] = [0, 1, 2, 3::nat]" by code_simp
  have t0: "jump_flood ?N ?O 0 ?d0 = ?d0"
    apply (simp add: jump_flood_def)
    apply (simp add: decompose_ix_def cell_center_def add_def multiplyScalar_def)
    apply (simp add: jumpFloodStep_def offsets_def compose_ix_def distanceTo_def)
    apply ((simp add: Let_def)?)
    done
  have t1: "jump_flood ?N ?O 1 ?d0 = ?d1"
    apply (simp add: jump_flood_def)
    apply (simp add: decompose_ix_def cell_center_def add_def multiplyScalar_def)
    apply (simp add: jumpFloodStep_def offsets_def compose_ix_def distanceTo_def)
    apply ((simp add: Let_def)?)
    done
  have t2: "jump_flood ?N ?O 2 ?d1 = ?d2"
    apply (simp add: jump_flood_def)
    apply (simp add: decompose_ix_def cell_center_def add_def multiplyScalar_def)
    apply (simp add: jumpFloodStep_def offsets_def compose_ix_def distanceTo_def)
    apply ((simp add: Let_def)?)
    done
  have t3: "jump_flood ?N ?O 3 ?d2 = ?d2"
    by (simp add: jump_flood_def)
  show ?thesis
    by (simp only: u4 fold.simps comp_apply id_apply t0 t1 t2 t3)
qed



lemma map_grid_distinct:
  assumes compat: "checkGridCompat inBuf [outBuf] = Inr grid"
      and pl: "mapPipelines K fnName = Some (mapPipeline snippet)"
      and bufs: "buffer inBuf = Some bi" "buffer outBuf = Some bo" "bi \<noteq> bo"
      and live: "buffers K bi = Some vin" "buffers K bo = Some vout"
      and len: "length vout = length vin"
               "length vin \<le> ((numX grid * numY grid * numZ grid + 127) div 128) * 128"
      and old: "bi < nextBuffer K" "bo < nextBuffer K"
  shows "map_grid K fnName inBuf outBuf =
           (Inr (), K\<lparr>buffers := (buffers K)
                         (bo \<mapsto> map (\<lambda>i. snippet (cell_center (vec4f_of (ofsResOf grid))
                                                  (decompose_ix (vec4u_of (numsOf grid 0)) i))
                                                (vin ! i)) [0..<length vin],
                          nextBuffer K := None, Suc (nextBuffer K) := None),
                       nextBuffer := Suc (Suc (nextBuffer K))\<rparr>)"
proof -
  let ?n = "nextBuffer K"
  let ?K3 = "K\<lparr>buffers := (buffers K)(?n \<mapsto> numsOf grid 0, Suc ?n \<mapsto> ofsResOf grid),
               nextBuffer := Suc (Suc ?n)\<rparr>"
  let ?out = "map (\<lambda>i. snippet (cell_center (vec4f_of (ofsResOf grid))
                                  (decompose_ix (vec4u_of (numsOf grid 0)) i)) (vin ! i))
                [0..<length vin]"
  have ns: "\<not> sameObject outBuf inBuf" "\<not> sameObject inBuf outBuf"
    using bufs by (simp_all add: sameObject_def)
  have u: "createUniformBuffer K (numsOf grid 0)
             = (?n, K\<lparr>buffers := (buffers K)(?n \<mapsto> numsOf grid 0), nextBuffer := Suc ?n\<rparr>)"
          "createUniformBuffer (K\<lparr>buffers := (buffers K)(?n \<mapsto> numsOf grid 0), nextBuffer := Suc ?n\<rparr>)
             (ofsResOf grid) = (Suc ?n, ?K3)"
    by (simp_all add: createUniformBuffer_def allocBuffer_def)
  have d: "dispatchKernel ?K3 inOrder (mapPipeline snippet) [Some bi, Some bo]
             (numX grid * numY grid * numZ grid) ?n (Suc ?n)
           = Inr (?K3\<lparr>buffers := (buffers ?K3)(bo \<mapsto> ?out)\<rparr>)"
    using bufs live len old
    by (intro dispatch_mapPipeline [where vin = vin and vout = vout]) simp_all
  have m: "((buffers ?K3)(bo \<mapsto> ?out))(?n := None, Suc ?n := None)
             = (buffers K)(bo \<mapsto> ?out, ?n := None, Suc ?n := None)"
    using old by (auto simp: fun_eq_iff)
  show ?thesis
    unfolding map_grid_def compat pl
    by (simp add: ns bufs u d destroyBuffer_def m)
qed

lemma jumpFloodPass_inOrder:
  assumes bufs: "buffer df = Some b" and live: "buffers K b = Some d" and old: "b < nextBuffer K"
      and len: "length d \<le> ((numX grid * numY grid * numZ grid + 127) div 128) * 128"
  shows "jumpFloodPass (\<lambda>pass. inOrder) grid df numPass pass (Inr (), K) =
           (Inr (), K\<lparr>buffers := (buffers K)
                         (b \<mapsto> fold (jump_flood (vec4u_of (numsOf grid (2 ^ (numPass - pass - 1))))
                                                (vec4f_of (ofsResOf grid))) [0..<length d] d,
                          nextBuffer K := None, Suc (nextBuffer K) := None),
                       nextBuffer := Suc (Suc (nextBuffer K))\<rparr>)"
proof -
  define st :: nat where "st = 2 ^ (numPass - pass - 1)"
  let ?n = "nextBuffer K"
  let ?nums = "numsOf grid st"
  let ?K2 = "K\<lparr>buffers := (buffers K)(?n \<mapsto> ?nums, Suc ?n \<mapsto> ofsResOf grid),
               nextBuffer := Suc (Suc ?n)\<rparr>"
  let ?out = "fold (jump_flood (vec4u_of ?nums) (vec4f_of (ofsResOf grid))) [0..<length d] d"
  have u: "createUniformBuffer K ?nums
             = (?n, K\<lparr>buffers := (buffers K)(?n \<mapsto> ?nums), nextBuffer := Suc ?n\<rparr>)"
          "createUniformBuffer (K\<lparr>buffers := (buffers K)(?n \<mapsto> ?nums), nextBuffer := Suc ?n\<rparr>)
             (ofsResOf grid) = (Suc ?n, ?K2)"
    by (simp_all add: createUniformBuffer_def allocBuffer_def)
  have d: "dispatchKernel ?K2 inOrder jumpFloodPipeline [Some b]
             (numX grid * numY grid * numZ grid) ?n (Suc ?n)
           = Inr (?K2\<lparr>buffers := (buffers ?K2)(b \<mapsto> ?out)\<rparr>)"
    using live len old by (intro dispatch_jumpFlood [where df = d]) simp_all
  have m: "((buffers ?K2)(b \<mapsto> ?out))(?n := None, Suc ?n := None)
             = (buffers K)(b \<mapsto> ?out, ?n := None, Suc ?n := None)"
    using old by (auto simp: fun_eq_iff)
  show ?thesis
    unfolding jumpFloodPass_def bufs Let_def st_def [symmetric]
    by (simp add: u d destroyBuffer_def m)
qed


text \<open>
  C2. Claimed: \<^verbatim>\<open>distField\<close> writes, into every cell whose nearest seed is in the
  grid, the distance between the two cell centers. On the grid of 2 x 2 x 1 cells with
  \<open>res = 1\<close> whose only seed is cell (1,1,0), the single pass has step 1; with its
  invocations taking effect in the order of their ids, cell (0,0,0) reads its neighbours
  (1,0,0) and (0,1,0) before they have adopted the seed, and keeps the sentinel -1,
  although the seed is at distance \<open>sqrt 2\<close>.
\<close>

theorem distField_leaves_cell_without_seed:
  "(let K = newGpuKernels\<lparr>buffers := [0 \<mapsto> [CU32 0, CU32 0, CU32 0, CU32 1],
                                        1 \<mapsto> [CF32 0, CF32 0, CF32 0, CF32 0]],
                            nextBuffer := 2\<rparr>;
        seed = \<lparr>res = 1, numX = 2, numY = 2, numZ = 1, ofs = Vector3 0 0 0, type = U32, buffer = Some 0\<rparr>;
        dist = \<lparr>res = 1, numX = 2, numY = 2, numZ = 1, ofs = Vector3 0 0 0, type = F32, buffer = Some 1\<rparr>;
        r = distField K (\<lambda>pass. inOrder) seed dist
    in fst r = Inr ()
       \<and> buffers (snd r) 1 = Some [CF32 (- 1), CF32 1, CF32 1, CF32 0]
       \<and> distanceTo (centerOf seed 0 0 0) (centerOf seed 1 1 0) = sqrt 2)"
proof -
  define K where "K = newGpuKernels\<lparr>buffers := [0 \<mapsto> [CU32 0, CU32 0, CU32 0, CU32 1],
                                        1 \<mapsto> [CF32 0, CF32 0, CF32 0, CF32 0]],
                            nextBuffer := 2\<rparr>"
  define seed where "seed = \<lparr>res = 1, numX = 2, numY = 2, numZ = 1, ofs = Vector3 0 0 0,
                              type = U32, buffer = Some 0\<rparr>"
  define dist where "dist = \<lparr>res = 1, numX = 2, numY = 2, numZ = 1, ofs = Vector3 0 0 0,
                              type = F32, buffer = Some 1\<rparr>"
  define df where "df = \<lparr>res = 1, numX = 2, numY = 2, numZ = 1, ofs = Vector3 0 0 0,
                            type = Vec4F, buffer = Some 2\<rparr>"
  define grid where "grid = \<lparr>res = 1, numX = 2, numY = 2, numZ = 1, ofs = Vector3 0 0 0\<rparr>"
  define s0 where "s0 = [CU32 0, CU32 0, CU32 0, CU32 1]"
  define z0 where "z0 = [CF32 0, CF32 0, CF32 0, CF32 0]"
  define v0 where "v0 = [CVec4 (Vector3 0 0 0) 0, CVec4 (Vector3 0 0 0) 0,
                         CVec4 (Vector3 0 0 0) 0, CVec4 (Vector3 0 0 0) 0]"
  define d0 where "d0 = [CVec4 (Vector3 0 0 0) (- 1), CVec4 (Vector3 0 0 0) (- 1),
                         CVec4 (Vector3 0 0 0) (- 1), CVec4 (Vector3 1 1 0) 0]"
  define d2 where "d2 = [CVec4 (Vector3 0 0 0) (- 1), CVec4 (Vector3 1 1 0) 1,
                         CVec4 (Vector3 1 1 0) 1, CVec4 (Vector3 1 1 0) 0]"
  define out where "out = [CF32 (- 1), CF32 1, CF32 1, CF32 0]"
  have lens: "length s0 = 4" "length z0 = 4" "length v0 = 4" "length d0 = 4" "length d2 = 4"
    by (simp_all add: s0_def z0_def v0_def d0_def d2_def)
  have thr: "4 \<le> ((numX grid * numY grid * numZ grid + 127) div 128) * 128"
    by (simp add: grid_def)
  have compat: "checkGridCompat seed [dist] = Inr grid" "checkGridCompat seed [df] = Inr grid"
      "checkGridCompat df [dist] = Inr grid"
    by (simp_all add: seed_def dist_def df_def grid_def)
  have bufs: "buffer seed = Some 0" "buffer dist = Some 1" "buffer df = Some 2"
    by (simp_all add: seed_def dist_def df_def)
  define K1 where "K1 = K\<lparr>buffers := (buffers K)(2 \<mapsto> v0), nextBuffer := 3\<rparr>"
  have A: "createLike K seed (Some Vec4F) = (df, K1)"
    by (simp add: K1_def df_def createLike_def newVoxelGridGpu_def allocBuffer_def K_def seed_def
          v0_def numeral_eq_Suc)
  have K1: "buffers K1 0 = Some s0" "buffers K1 1 = Some z0" "buffers K1 2 = Some v0"
      "nextBuffer K1 = 3"
      "mapPipelines K1 ''df_init'' = Some (mapPipeline df_init)"
      "mapPipelines K1 ''df_to_dist'' = Some (mapPipeline df_to_dist)"
    by (simp_all add: K1_def K_def newGpuKernels_def s0_def z0_def)
  have K1': "buffers K1 (Suc 0) = Some z0" using K1(2) by simp
  define x1 where "x1 = map (\<lambda>i. df_init (cell_center (vec4f_of (ofsResOf grid))
                                 (decompose_ix (vec4u_of (numsOf grid 0)) i)) (s0 ! i))
                          [0..<length s0]"
  have x1: "x1 = d0"
    by (simp add: x1_def d0_def s0_def grid_def numsOf_def ofsResOf_def df_init_def
          cell_center_def decompose_ix_def add_def multiplyScalar_def)
  define K2 where "K2 = K1\<lparr>buffers := (buffers K1)(2 \<mapsto> x1, nextBuffer K1 := None,
                                                      Suc (nextBuffer K1) := None),
                           nextBuffer := Suc (Suc (nextBuffer K1))\<rparr>"
  have B: "map_grid K1 ''df_init'' seed df = (Inr (), K2)"
    unfolding K2_def x1_def
    by (rule map_grid_distinct [OF compat(2) K1(5) bufs(1) bufs(3) _ K1(1) K1(3)])
       (simp_all add: K1 lens thr)
  have K2: "buffers K2 1 = Some z0" "buffers K2 2 = Some d0" "nextBuffer K2 = 5"
      "mapPipelines K2 ''df_to_dist'' = Some (mapPipeline df_to_dist)"
    by (simp_all add: K2_def K1 K1' x1)
  have K2': "buffers K2 (Suc 0) = Some z0" using K2(1) by simp
  define x2 where "x2 = fold (jump_flood (vec4u_of (numsOf grid (2 ^ (1 - 0 - 1))))
                                (vec4f_of (ofsResOf grid))) [0..<length d0] d0"
  have e: "vec4u_of (numsOf grid (2 ^ (1 - 0 - 1))) = (2, 2, 1, 1)"
      "vec4f_of (ofsResOf grid) = (Vector3 0 0 0, 1)"
    by (simp_all add: numsOf_def ofsResOf_def grid_def)
  have x2: "x2 = d2"
    unfolding x2_def e lens unfolding d0_def d2_def by (rule jump_flood_2x2)
  define K3 where "K3 = K2\<lparr>buffers := (buffers K2)(2 \<mapsto> x2, nextBuffer K2 := None,
                                                      Suc (nextBuffer K2) := None),
                           nextBuffer := Suc (Suc (nextBuffer K2))\<rparr>"
  have C: "jumpFloodPass (\<lambda>pass. inOrder) grid df 1 0 (Inr (), K2) = (Inr (), K3)"
    unfolding K3_def x2_def
    by (rule jumpFloodPass_inOrder [OF bufs(3) K2(2)]) (simp_all add: K2 lens thr)
  have K3: "buffers K3 1 = Some z0" "buffers K3 2 = Some d2" "nextBuffer K3 = 7"
      "mapPipelines K3 ''df_to_dist'' = Some (mapPipeline df_to_dist)"
    by (simp_all add: K3_def K2 K2' x2)
  define x3 where "x3 = map (\<lambda>i. df_to_dist (cell_center (vec4f_of (ofsResOf grid))
                                 (decompose_ix (vec4u_of (numsOf grid 0)) i)) (d2 ! i))
                          [0..<length d2]"
  have x3: "x3 = out"
    by (simp add: x3_def d2_def out_def df_to_dist_def)
  define K4 where "K4 = K3\<lparr>buffers := (buffers K3)(1 \<mapsto> x3, nextBuffer K3 := None,
                                                      Suc (nextBuffer K3) := None),
                           nextBuffer := Suc (Suc (nextBuffer K3))\<rparr>"
  have D: "map_grid K3 ''df_to_dist'' df dist = (Inr (), K4)"
    unfolding K4_def x3_def
    by (rule map_grid_distinct [OF compat(3) K3(4) bufs(3) bufs(2) _ K3(2) K3(1)])
       (simp_all add: K3 lens thr)
  have K4: "buffers K4 1 = Some out"
    by (simp add: K4_def K3 x3)
  have E: "destroy K4 df = (Inr (), destroyBuffer K4 2)"
    by (simp add: destroy_def bufs)
  have np: "ceil_log2 (max (max (numX grid) (numY grid)) (numZ grid)) = 1"
    by (simp add: grid_def)
  have u1: "[0..<1] = [0::nat]" by simp
  have passes: "fold (jumpFloodPass (\<lambda>pass. inOrder) grid df 1) [0..<1] (Inr (), K2) = (Inr (), K3)"
    by (simp only: u1 fold.simps comp_apply id_apply C)
  have r: "distField K (\<lambda>pass. inOrder) seed dist = (Inr (), destroyBuffer K4 2)"
    unfolding distField_def
    by (simp only: compat A np Let_def prod.case sum.case B passes D E)
  have res: "buffers (destroyBuffer K4 2) 1 = Some out"
    using K4 by (simp add: destroyBuffer_def)
  then have res': "buffers (destroyBuffer K4 2) (Suc 0) = Some out" by simp
  have true_dist: "distanceTo (centerOf seed 0 0 0) (centerOf seed 1 1 0) = sqrt 2"
    by (simp add: distanceTo_def centerOf_def add_def multiplyScalar_def addScalar_def seed_def)
  show ?thesis
    unfolding Let_def K_def [symmetric] seed_def [symmetric] dist_def [symmetric] r
    using res res' true_dist by (simp add: out_def)
qed

end
